theory Spec2Isabelle
  imports Complex_Main
begin

section \<open>JavaScript values used by the PDF service\<close>

text \<open>
  The service (\<^verbatim>\<open>services/pdfService\<close>) is TypeScript running in a browser. Its numbers are
  IEEE-754 doubles. The only numbers it computes with are the results of \<^verbatim>\<open>parseInt\<close>, the
  loop counter \<^verbatim>\<open>i\<close> and page counts, all of them integers, infinities or NaN, so a number
  is modelled as \<open>jsnum\<close>: \<open>Fin n\<close> is the double whose value is the integer \<open>n\<close>. Minus zero
  is identified with zero (no comparison of the service tells them apart).
\<close>

datatype jsnum = NaN | NegInf | Fin int | PosInf

text \<open>\<^verbatim>\<open>isNaN(x)\<close>.\<close>

fun isNaN :: "jsnum \<Rightarrow> bool" where
  "isNaN NaN = True"
| "isNaN _ = False"

text \<open>\<^verbatim>\<open>a <= b\<close> on numbers: false as soon as one side is NaN.\<close>

fun js_le :: "jsnum \<Rightarrow> jsnum \<Rightarrow> bool" where
  "js_le (Fin a) (Fin b) = (a \<le> b)"
| "js_le NaN _ = False"
| "js_le _ NaN = False"
| "js_le NegInf _ = True"
| "js_le _ PosInf = True"
| "js_le _ NegInf = False"
| "js_le PosInf (Fin b) = False"

text \<open>\<^verbatim>\<open>a >= b\<close> is \<^verbatim>\<open>b <= a\<close> for numbers.\<close>

definition js_ge :: "jsnum \<Rightarrow> jsnum \<Rightarrow> bool" where
  "js_ge a b = js_le b a"

text \<open>Number of binary digits of a positive integer.\<close>

function bitlen :: "int \<Rightarrow> nat" where
  "bitlen n = (if n \<le> 0 then 0 else Suc (bitlen (n div 2)))"
  by auto
termination
  by (relation "measure nat") auto

declare bitlen.simps [simp del]

text \<open>
  The double nearest to an integer (round to nearest, ties to even; beyond the largest
  double the result is an infinity). Integers up to \<open>2 ^ 53\<close> in absolute value are
  doubles themselves. Above, a double has 53 significant bits: the integer is cut to its
  leading 53 bits \<open>q\<close> and rounded on the remainder \<open>r\<close>.
\<close>

definition round_double :: "int \<Rightarrow> jsnum" where
  "round_double n =
     (let a = \<bar>n\<bar> in
      if a \<le> 2 ^ 53 then Fin n
      else
        let e = bitlen a - 53;
            q = a div 2 ^ e;
            r = a mod 2 ^ e;
            q' = (if 2 ^ e < 2 * r \<or> (2 * r = 2 ^ e \<and> odd q) then q + 1 else q);
            v = q' * 2 ^ e
        in if 2 ^ 1024 \<le> v then (if n < 0 then NegInf else PosInf)
           else Fin (if n < 0 then - v else v))"

text \<open>\<^verbatim>\<open>i++\<close>: the double nearest to \<open>i + 1\<close>.\<close>

fun js_inc :: "jsnum \<Rightarrow> jsnum" where
  "js_inc (Fin n) = round_double (n + 1)"
| "js_inc x = x"

section \<open>Strings\<close>

text \<open>
  A JavaScript string is a sequence of UTF-16 code units; a \<open>char\<close> here is a code unit
  below 256. The white space that \<^verbatim>\<open>trim\<close> and \<^verbatim>\<open>parseInt\<close> strip is, in that range:
  TAB, LF, VT, FF, CR, space and the no-break space.
\<close>

definition is_white_space :: "char \<Rightarrow> bool" where
  "is_white_space c = (of_char c \<in> {9, 10, 11, 12, 13, 32, 160 :: int})"

text \<open>\<^verbatim>\<open>s.trim()\<close>.\<close>

definition trim :: "string \<Rightarrow> string" where
  "trim s = rev (dropWhile is_white_space (rev (dropWhile is_white_space s)))"

text \<open>
  \<^verbatim>\<open>s.split(c)\<close> for a one-character separator: the pieces between the separators, empty
  pieces included; a string without the separator is its own single piece.
\<close>

fun js_split :: "char \<Rightarrow> string \<Rightarrow> string list" where
  "js_split c [] = [[]]"
| "js_split c (x # xs) =
     (if x = c then [] # js_split c xs
      else (case js_split c xs of
              [] \<Rightarrow> [[x]]
            | y # ys \<Rightarrow> (x # y) # ys))"

text \<open>\<^verbatim>\<open>s.includes(c)\<close> for a one-character string.\<close>

definition js_includes :: "string \<Rightarrow> char \<Rightarrow> bool" where
  "js_includes s c = (c \<in> set s)"

text \<open>The value of a digit character, for radixes up to 36.\<close>

definition digit_val :: "char \<Rightarrow> int option" where
  "digit_val c =
     (let k = (of_char c :: int) in
      if 48 \<le> k \<and> k \<le> 57 then Some (k - 48)
      else if 97 \<le> k \<and> k \<le> 122 then Some (k - 87)
      else if 65 \<le> k \<and> k \<le> 90 then Some (k - 55)
      else None)"

definition is_digit :: "int \<Rightarrow> char \<Rightarrow> bool" where
  "is_digit R c = (case digit_val c of None \<Rightarrow> False | Some d \<Rightarrow> d < R)"

definition digits_value :: "int \<Rightarrow> string \<Rightarrow> int" where
  "digits_value R ds = foldl (\<lambda>acc c. acc * R + the (digit_val c)) 0 ds"

text \<open>
  \<^verbatim>\<open>parseInt(s)\<close> with no radix argument (ECMA-262, 19.2.5): leading white space is
  skipped, then an optional sign, then an optional \<^verbatim>\<open>0x\<close> or \<^verbatim>\<open>0X\<close> that switches to
  radix 16; the longest prefix of digits of the radix is the number, whatever follows is
  ignored, and no digit at all gives NaN. The result is a double.
\<close>

definition parseInt :: "string \<Rightarrow> jsnum" where
  "parseInt s =
     (let s1 = dropWhile is_white_space s;
          neg = (case s1 of [] \<Rightarrow> False | c # _ \<Rightarrow> c = CHR ''-'');
          s2 = (case s1 of [] \<Rightarrow> [] | c # cs \<Rightarrow> if c = CHR ''+'' \<or> c = CHR ''-'' then cs else s1);
          hex = (case s2 of a # b # _ \<Rightarrow> a = CHR ''0'' \<and> (b = CHR ''x'' \<or> b = CHR ''X'') | _ \<Rightarrow> False);
          R = (if hex then 16 else 10);
          s3 = (if hex then drop 2 s2 else s2);
          ds = takeWhile (is_digit R) s3
      in if ds = [] then NaN
         else round_double (if neg then - digits_value R ds else digits_value R ds))"

section \<open>Page range parsing in splitPdf\<close>

text \<open>
  \<^verbatim>\<open>pagesToKeep\<close> is a \<^verbatim>\<open>Set<number>\<close>, which keeps its members in insertion order: a list
  without repetition, \<^verbatim>\<open>add\<close> appending a value that is not yet there.
\<close>

definition set_add :: "int \<Rightarrow> int list \<Rightarrow> int list" where
  "set_add x s = (if x \<in> set s then s else s @ [x])"

text \<open>
  \<^verbatim>\<open>i - 1\<close> where the guard \<^verbatim>\<open>i >= 1 && i <= totalPages\<close> holds: \<open>i\<close> is then a finite
  integer between 1 and a page count (an array length, far below \<open>2 ^ 53\<close>), and the
  subtraction is exact.
\<close>

fun js_pred :: "jsnum \<Rightarrow> int" where
  "js_pred (Fin n) = n - 1"
| "js_pred _ = 0"

text \<open>
  The loop \<^verbatim>\<open>for (let i = start; i <= end; i++) if (i >= 1 && i <= totalPages)
  pagesToKeep.add(i - 1)\<close>. The counter is a double: once it reaches \<open>2 ^ 53\<close> the
  increment no longer changes it, so the loop need not end; not returning is \<open>None\<close>.
\<close>

partial_function (option) range_loop :: "jsnum \<Rightarrow> jsnum \<Rightarrow> nat \<Rightarrow> int list \<Rightarrow> int list option" where
  [code]: "range_loop i endNum totalPages pagesToKeep =
     (if js_le i endNum
      then range_loop (js_inc i) endNum totalPages
             (if js_ge i (Fin 1) \<and> js_le i (Fin (int totalPages))
              then set_add (js_pred i) pagesToKeep else pagesToKeep)
      else Some pagesToKeep)"

text \<open>
  Array destructuring \<^verbatim>\<open>const [start, end] = ...\<close>: a position the array does not have
  gives \<^verbatim>\<open>undefined\<close>, for which \<^verbatim>\<open>isNaN\<close> is true, as for NaN.
\<close>

definition element_or_undefined :: "jsnum list \<Rightarrow> nat \<Rightarrow> jsnum" where
  "element_or_undefined xs k = (if k < length xs then xs ! k else NaN)"

text \<open>\<^verbatim>\<open>part.split('-').map(s => parseInt(s.trim()))\<close>.\<close>

definition range_numbers :: "string \<Rightarrow> jsnum list" where
  "range_numbers part = map (\<lambda>s. parseInt (trim s)) (js_split (CHR ''-'') part)"

text \<open>The body of \<^verbatim>\<open>parts.forEach(part => ...)\<close> for one part.\<close>

definition process_part :: "nat \<Rightarrow> string \<Rightarrow> int list \<Rightarrow> int list option" where
  "process_part totalPages part pagesToKeep =
     (if js_includes part (CHR ''-'') then
        (let nums = range_numbers part;
             start = element_or_undefined nums 0;
             endNum = element_or_undefined nums 1
         in if \<not> isNaN start \<and> \<not> isNaN endNum
            then range_loop start endNum totalPages pagesToKeep
            else Some pagesToKeep)
      else
        (let pageNum = parseInt (trim part)
         in if \<not> isNaN pageNum \<and> js_ge pageNum (Fin 1) \<and> js_le pageNum (Fin (int totalPages))
            then Some (set_add (js_pred pageNum) pagesToKeep)
            else Some pagesToKeep))"

fun forEach_part :: "nat \<Rightarrow> string list \<Rightarrow> int list \<Rightarrow> int list option" where
  "forEach_part totalPages [] pagesToKeep = Some pagesToKeep"
| "forEach_part totalPages (part # parts) pagesToKeep =
     (case process_part totalPages part pagesToKeep of
        None \<Rightarrow> None
      | Some pagesToKeep' \<Rightarrow> forEach_part totalPages parts pagesToKeep')"

text \<open>
  Lines 96 to 115 of the service, which the specification calls \<open>parseRanges\<close>: split the
  expression at the commas, run the body on every part from the empty set, and sort the
  members ascending (\<^verbatim>\<open>Array.from(pagesToKeep).sort((a, b) => a - b)\<close>).
\<close>

definition parseRanges :: "string \<Rightarrow> nat \<Rightarrow> int list option" where
  "parseRanges rangeStr totalPages =
     map_option sort (forEach_part totalPages (js_split (CHR '','') rangeStr) [])"

section \<open>Files and documents\<close>

text \<open>
  A browser \<^verbatim>\<open>File\<close>: its MIME type (\<^verbatim>\<open>file.type\<close>) and the bytes that
  \<^verbatim>\<open>file.arrayBuffer()\<close> resolves to.
\<close>

type_synonym bytes = "nat list"

record js_file =
  mime_type :: string
  arrayBuffer :: bytes

text \<open>
  What the service throws. \<open>Error m\<close> is the service's own \<^verbatim>\<open>throw new Error(m)\<close>; the
  others are raised inside the libraries and are not caught by the service: by
  \<^verbatim>\<open>PDFDocument.load\<close> (or the renderer's \<^verbatim>\<open>getDocument\<close>) on bytes that are no PDF, by
  \<^verbatim>\<open>copyPages\<close> (or the renderer's \<^verbatim>\<open>getPage\<close>) on an index the source document does not
  have, by \<^verbatim>\<open>embedJpg\<close> and \<^verbatim>\<open>embedPng\<close> on bytes that are no image of that format, and by
  the renderer when a page cannot be painted or the painted canvas cannot be encoded.
\<close>

datatype error =
  Error string | MalformedDocument | PageIndexOutOfRange | UndecodableImage | RenderingFailed

text \<open>
  Modelled from the spec: the PDF library's document (pdf-lib's \<^verbatim>\<open>PDFDocument\<close>), whose code
  is not part of the repository. A document is the sequence of its pages (section 3);
  \<^verbatim>\<open>create\<close> gives the document without pages, \<^verbatim>\<open>getPageCount\<close> and
  \<^verbatim>\<open>getPageIndices\<close> count and number them from zero, \<^verbatim>\<open>copyPages\<close> gives the pages at the
  given indices in the order of the indices, and \<^verbatim>\<open>addPage\<close> appends (section 4.2).
  Parsing bytes (\<^verbatim>\<open>load\<close>) is a parameter of the operations, and so is the writing of the
  bytes.
\<close>

record 'p document =
  pages :: "'p list"

text \<open>Modelled from the spec: \<^verbatim>\<open>PDFDocument.create()\<close>, the document without pages.\<close>

definition create :: "'p document" where
  "create = \<lparr>pages = []\<rparr>"

text \<open>Modelled from the spec: \<^verbatim>\<open>getPageCount()\<close>, the number of pages.\<close>

definition getPageCount :: "'p document \<Rightarrow> nat" where
  "getPageCount d = length (pages d)"

text \<open>Modelled from the spec: \<^verbatim>\<open>getPageIndices()\<close>, the zero-based indices of all pages, ascending.\<close>

definition getPageIndices :: "'p document \<Rightarrow> int list" where
  "getPageIndices d = map int [0..<length (pages d)]"

text \<open>
  Modelled from the spec: \<^verbatim>\<open>copyPages(src, indices)\<close>, a copy of the page at each index, in
  the order of the indices; an index the source does not have makes the library throw.
\<close>

fun copyPages :: "'p document \<Rightarrow> int list \<Rightarrow> error + 'p list" where
  "copyPages src [] = Inr []"
| "copyPages src (k # ks) =
     (if 0 \<le> k \<and> k < int (length (pages src))
      then (case copyPages src ks of
              Inl e \<Rightarrow> Inl e
            | Inr ps \<Rightarrow> Inr (pages src ! nat k # ps))
      else Inl PageIndexOutOfRange)"

text \<open>Modelled from the spec: \<^verbatim>\<open>addPage(page)\<close> appends the page.\<close>

definition addPage :: "'p document \<Rightarrow> 'p \<Rightarrow> 'p document" where
  "addPage d p = d\<lparr>pages := pages d @ [p]\<rparr>"

text \<open>\<^verbatim>\<open>copiedPages.forEach(page => doc.addPage(page))\<close>.\<close>

fun addPages :: "'p document \<Rightarrow> 'p list \<Rightarrow> 'p document" where
  "addPages d [] = d"
| "addPages d (page # copiedPages) = addPages (addPage d page) copiedPages"

text \<open>
  Modelled on the library, whose code is not part of the repository: \<^verbatim>\<open>save()\<close> as the
  service calls it, without options. pdf-lib then first adds a default page, a blank A4
  page, to a document that has no page (its option \<^verbatim>\<open>addDefaultPage\<close> is on unless it is
  switched off), and writes the bytes of the document after that. Writing the bytes of a
  document as it stands (\<open>serialize\<close>) and the default page are parameters.
\<close>

definition pdf_save :: "'p \<Rightarrow> ('p document \<Rightarrow> bytes) \<Rightarrow> 'p document \<Rightarrow> bytes" where
  "pdf_save defaultPage serialize d =
     serialize (if getPageCount d = 0 then addPage d defaultPage else d)"

section \<open>splitPdf\<close>

text \<open>
  Here \<open>save\<close> stands for the whole of the library's \<^verbatim>\<open>save()\<close>; the document that splitPdf
  saves always has a page, so that the default page plays no role.
\<close>

definition splitPdf ::
  "(bytes \<Rightarrow> error + 'p document) \<Rightarrow> ('p document \<Rightarrow> bytes) \<Rightarrow> js_file \<Rightarrow> string
     \<Rightarrow> (error + bytes) option" where
  "splitPdf load save f rangeStr =
     (let fileBytes = arrayBuffer f in
      case load fileBytes of
        Inl e \<Rightarrow> Some (Inl e)
      | Inr srcPdf \<Rightarrow>
          (let newPdf = create;
               totalPages = getPageCount srcPdf
           in case parseRanges rangeStr totalPages of
                None \<Rightarrow> None
              | Some indices \<Rightarrow>
                  if length indices = 0 then Some (Inl (Error ''Invalid page range''))
                  else (case copyPages srcPdf indices of
                          Inl e \<Rightarrow> Some (Inl e)
                        | Inr copiedPages \<Rightarrow> Some (Inr (save (addPages newPdf copiedPages))))))"


section \<open>mergePdfs\<close>

text \<open>The loop \<^verbatim>\<open>for (const file of files)\<close>; a file that does not load aborts the merge.\<close>

fun merge_loop ::
  "(bytes \<Rightarrow> error + 'p document) \<Rightarrow> js_file list \<Rightarrow> 'p document \<Rightarrow> error + 'p document" where
  "merge_loop load [] mergedPdf = Inr mergedPdf"
| "merge_loop load (f # files) mergedPdf =
     (let fileBytes = arrayBuffer f in
      case load fileBytes of
        Inl e \<Rightarrow> Inl e
      | Inr pdf \<Rightarrow>
          (case copyPages pdf (getPageIndices pdf) of
             Inl e \<Rightarrow> Inl e
           | Inr copiedPages \<Rightarrow> merge_loop load files (addPages mergedPdf copiedPages)))"

definition mergePdfs ::
  "(bytes \<Rightarrow> error + 'p document) \<Rightarrow> 'p \<Rightarrow> ('p document \<Rightarrow> bytes) \<Rightarrow> js_file list
     \<Rightarrow> error + bytes" where
  "mergePdfs load defaultPage serialize files =
     (case merge_loop load files create of
        Inl e \<Rightarrow> Inl e
      | Inr mergedPdf \<Rightarrow> Inr (pdf_save defaultPage serialize mergedPdf))"

section \<open>imagesToPdf\<close>

text \<open>
  Modelled from the spec: an embedded image (pdf-lib's \<^verbatim>\<open>PDFImage\<close>) has its pixel dimensions;
  \<^verbatim>\<open>scale(factor)\<close> gives them multiplied by the factor (section 4.3). Decoding the bytes
  (\<^verbatim>\<open>embedJpg\<close>, \<^verbatim>\<open>embedPng\<close>) is a parameter of the operations; it fails on bytes that
  are no image of the format. Lengths on a page are JavaScript numbers that the service
  only passes on; they are rationals here.
\<close>

record pdf_image =
  image_width :: nat
  image_height :: nat
  image_data :: bytes


text \<open>
  Modelled from the spec: a page made by the service has its media box size and the images
  drawn on it, each with its position and size. \<^verbatim>\<open>addPage([width, height])\<close> appends a page
  of that size without content and returns its handle, the position of the page in the
  document; \<^verbatim>\<open>page.drawImage(image, {x, y, width, height})\<close> adds the drawing to that page.
\<close>

record drawing =
  drawn_image :: pdf_image
  at_x :: rat
  at_y :: rat
  drawn_width :: rat
  drawn_height :: rat

record page =
  page_width :: rat
  page_height :: rat
  drawings :: "drawing list"

definition addPage_sized :: "page document \<Rightarrow> rat \<times> rat \<Rightarrow> page document \<times> nat" where
  "addPage_sized d sz =
     (d\<lparr>pages := pages d @ [\<lparr>page_width = fst sz, page_height = snd sz, drawings = []\<rparr>]\<rparr>,
      length (pages d))"

definition drawImage ::
  "page document \<Rightarrow> nat \<Rightarrow> pdf_image \<Rightarrow> rat \<Rightarrow> rat \<Rightarrow> rat \<Rightarrow> rat \<Rightarrow> page document" where
  "drawImage d k img x y w h =
     (if k < length (pages d)
      then d\<lparr>pages := (pages d)
             [k := (pages d ! k)\<lparr>drawings := drawings (pages d ! k) @
                [\<lparr>drawn_image = img, at_x = x, at_y = y, drawn_width = w, drawn_height = h\<rparr>]\<rparr>]\<rparr>
      else d)"

text \<open>
  The default page that \<^verbatim>\<open>save()\<close> adds to a document without pages: blank, of the size
  A4 of the library, 595.28 by 841.89 points.
\<close>

definition a4_page :: page where
  "a4_page = \<lparr>page_width = 59528 / 100, page_height = 84189 / 100, drawings = []\<rparr>"

text \<open>
  The end of the loop body, shared by \<^verbatim>\<open>imagesToPdf\<close> (at scale 1 of the image) and
  \<^verbatim>\<open>compressPdf\<close> (at the size of the viewport): add a page of the given size and draw the
  image on it at the origin, at that size.
\<close>

definition add_image_page :: "page document \<Rightarrow> pdf_image \<Rightarrow> rat \<times> rat \<Rightarrow> page document" where
  "add_image_page pdfDoc pdfImage sz =
     (let (d, newPage) = addPage_sized pdfDoc sz
      in drawImage d newPage pdfImage 0 0 (fst sz) (snd sz))"



section \<open>compressPdf\<close>

text \<open>
  The rendering side (pdf.js and the browser's canvas) is a parameter: \<^verbatim>\<open>getDocument\<close> loads
  the bytes of the source; \<^verbatim>\<open>pdf.numPages\<close> is the number of its pages and \<^verbatim>\<open>pdf.getPage(i)\<close>
  fetches the page of number \<open>i\<close>, counted from 1; \<^verbatim>\<open>getViewport\<close> gives the size of a page at
  a scale; \<^verbatim>\<open>render\<close> paints a page on the canvas; \<^verbatim>\<open>toDataURL\<close> encodes the painted canvas
  with a MIME type and a quality (the bytes are what \<^verbatim>\<open>fetch\<close> of the data URL yields).
  \<open>context_available\<close> says whether \<^verbatim>\<open>canvas.getContext('2d')\<close> gives a context. Every call
  that the service awaits may fail, and none of them is inside a \<^verbatim>\<open>try\<close>: the error ends the
  conversion.
\<close>

record viewport =
  viewport_width :: rat
  viewport_height :: rat

text \<open>
  The canvas has a whole number of pixels each way: \<^verbatim>\<open>width\<close> and \<^verbatim>\<open>height\<close> of an
  \<^verbatim>\<open>HTMLCanvasElement\<close> are \<^verbatim>\<open>unsigned long\<close> attributes. Assigning a number to them
  converts it (Web IDL): the fraction is cut off, and the result is taken modulo \<open>2 ^ 32\<close>;
  a result above \<open>2 ^ 31 - 1\<close> is replaced by the default of the attribute (HTML, reflecting
  attributes), which is 300 for the width and 150 for the height, the size of a new canvas.
\<close>

record canvas =
  canvas_width :: nat
  canvas_height :: nat

definition to_unsigned_long :: "rat \<Rightarrow> nat" where
  "to_unsigned_long x = nat ((if x < 0 then - \<lfloor>- x\<rfloor> else \<lfloor>x\<rfloor>) mod 2 ^ 32)"

definition canvas_dimension :: "nat \<Rightarrow> rat \<Rightarrow> nat" where
  "canvas_dimension defaultValue x =
     (let n = to_unsigned_long x in if n \<le> 2147483647 then n else defaultValue)"

definition createElement_canvas :: canvas where
  "createElement_canvas = \<lparr>canvas_width = 300, canvas_height = 150\<rparr>"

record ('doc, 'pg, 'bm) renderer =
  getDocument :: "bytes \<Rightarrow> error + 'doc"
  pdf_numPages :: "'doc \<Rightarrow> nat"
  getPage :: "'doc \<Rightarrow> nat \<Rightarrow> error + 'pg"
  context_available :: bool
  getViewport :: "'pg \<Rightarrow> rat \<Rightarrow> viewport"
  render :: "'pg \<Rightarrow> canvas \<Rightarrow> viewport \<Rightarrow> error + 'bm"
  toDataURL :: "'bm \<Rightarrow> string \<Rightarrow> rat \<Rightarrow> error + bytes"

text \<open>
  What an observer of a run sees, in order: the calls of the progress callback with their
  two arguments, and the statements of the loop body that work on page \<open>i\<close>, each as
  it is reached and with what it is given: \<^verbatim>\<open>pdf.getPage(i)\<close>; \<^verbatim>\<open>page.getViewport\<close> with its
  scale; \<^verbatim>\<open>page.render\<close> with the canvas, as large as it is at that moment, and the viewport;
  \<^verbatim>\<open>canvas.toDataURL\<close> with its type and quality; \<^verbatim>\<open>newPdfDoc.embedJpg\<close>;
  \<^verbatim>\<open>newPdfDoc.addPage\<close> with the width and height of the new page, on which the image is
  then drawn; and \<^verbatim>\<open>page.cleanup()\<close>, after which the page is done. A callback is any
  change of what has been observed; \<open>record_progress\<close> is the callback that notes its call.
\<close>

datatype event =
  Progress nat nat
| GetPage nat
| GetViewport nat rat
| Render nat canvas viewport
| Encode nat string rat
| Embed nat
| AddPage nat rat rat
| Cleanup nat

fun is_progress :: "event \<Rightarrow> bool" where
  "is_progress (Progress current totalCount) = True"
| "is_progress e = False"

definition record_progress :: "nat \<Rightarrow> nat \<Rightarrow> event list \<Rightarrow> event list" where
  "record_progress current totalCount observed = observed @ [Progress current totalCount]"

text \<open>
  The loop \<^verbatim>\<open>for (let i = 1; i <= numPages; i++)\<close>, on the new document, the canvas and
  what has been observed; it gives what has been observed in the end and the new document,
  or the error of the call that failed, which is then the last one observed. The counter
  stays below the page count, where doubles are exact.
\<close>

function compress_loop ::
  "('doc, 'pg, 'bm) renderer \<Rightarrow> (bytes \<Rightarrow> error + pdf_image) \<Rightarrow> 'doc \<Rightarrow> rat
     \<Rightarrow> (nat \<Rightarrow> nat \<Rightarrow> event list \<Rightarrow> event list) option \<Rightarrow> nat \<Rightarrow> nat
     \<Rightarrow> page document \<times> canvas \<times> event list \<Rightarrow> event list \<times> (error + page document)" where
  "compress_loop r embedJpg pdf quality onProgress i numPages (newPdfDoc, cv, observed) =
     (if i \<le> numPages then
        (let observed1 = (case onProgress of
                            None \<Rightarrow> observed
                          | Some callback \<Rightarrow> callback i numPages observed);
             observed2 = observed1 @ [GetPage i]
         in case getPage r pdf i of
              Inl e \<Rightarrow> (observed2, Inl e)
            | Inr pg \<Rightarrow>
                (let vp = getViewport r pg (3 / 2);
                     observed3 = observed2 @ [GetViewport i (3 / 2)];
                     cv1 = cv\<lparr>canvas_width := canvas_dimension 300 (viewport_width vp)\<rparr>;
                     cv2 = cv1\<lparr>canvas_height := canvas_dimension 150 (viewport_height vp)\<rparr>;
                     observed4 = observed3 @ [Render i cv2 vp]
                 in case render r pg cv2 vp of
                      Inl e \<Rightarrow> (observed4, Inl e)
                    | Inr bitmap \<Rightarrow>
                        (let observed5 = observed4 @ [Encode i ''image/jpeg'' quality]
                         in case toDataURL r bitmap ''image/jpeg'' quality of
                              Inl e \<Rightarrow> (observed5, Inl e)
                            | Inr imageBytes \<Rightarrow>
                                (let observed6 = observed5 @ [Embed i]
                                 in case embedJpg imageBytes of
                                      Inl e \<Rightarrow> (observed6, Inl e)
                                    | Inr embeddedImage \<Rightarrow>
                                        (let newPdfDoc1 = add_image_page newPdfDoc embeddedImage
                                                            (viewport_width vp, viewport_height vp);
                                             observed7 = observed6 @
                                               [AddPage i (viewport_width vp) (viewport_height vp)];
                                             observed8 = observed7 @ [Cleanup i]
                                         in compress_loop r embedJpg pdf quality onProgress (i + 1)
                                              numPages (newPdfDoc1, cv2, observed8))))))
      else (observed, Inr newPdfDoc))"
  by pat_completeness auto
termination
  by (relation "measure (\<lambda>(r, embedJpg, pdf, quality, onProgress, i, numPages, st). numPages + 1 - i)") auto

declare compress_loop.simps [simp del]

definition compressPdf ::
  "('doc, 'pg, 'bm) renderer \<Rightarrow> (bytes \<Rightarrow> error + pdf_image) \<Rightarrow> (page document \<Rightarrow> bytes) \<Rightarrow> js_file
     \<Rightarrow> rat \<Rightarrow> (nat \<Rightarrow> nat \<Rightarrow> event list \<Rightarrow> event list) option \<Rightarrow> event list \<times> (error + bytes)" where
  "compressPdf r embedJpg serialize f quality onProgress =
     (let fileArrayBuffer = arrayBuffer f in
      case getDocument r fileArrayBuffer of
        Inl e \<Rightarrow> ([], Inl e)
      | Inr pdf \<Rightarrow>
          (let numPages = pdf_numPages r pdf;
               newPdfDoc = create;
               cv = createElement_canvas
           in if \<not> context_available r then ([], Inl (Error ''Could not create canvas context''))
              else (case compress_loop r embedJpg pdf quality onProgress 1 numPages
                           (newPdfDoc, cv, []) of
                      (observed, Inl e) \<Rightarrow> (observed, Inl e)
                    | (observed, Inr newPdfDoc') \<Rightarrow>
                        (observed, Inr (pdf_save a4_page serialize newPdfDoc')))))"

text \<open>
  The round of a page \<open>pg\<close>, as the properties below speak of it: the canvas once both its
  dimensions have been assigned from the viewport of the page; the page that the round adds
  when \<^verbatim>\<open>embedJpg\<close> gave the image \<open>im\<close>; what the round of number \<open>i\<close> lets an observer see
  after the callback; and that no call of the round fails, \<open>pg\<close>, \<open>bm\<close>, \<open>enc\<close> and \<open>im\<close>
  being the page fetched, the bitmap painted, its encoding and the image embedded.
\<close>

abbreviation page_canvas :: "('doc, 'pg, 'bm) renderer \<Rightarrow> 'pg \<Rightarrow> canvas" where
  "page_canvas r pg \<equiv>
     \<lparr>canvas_width = canvas_dimension 300 (viewport_width (getViewport r pg (3 / 2))),
      canvas_height = canvas_dimension 150 (viewport_height (getViewport r pg (3 / 2)))\<rparr>"

abbreviation compressed_page :: "('doc, 'pg, 'bm) renderer \<Rightarrow> 'pg \<Rightarrow> pdf_image \<Rightarrow> page" where
  "compressed_page r pg im \<equiv>
     \<lparr>page_width = viewport_width (getViewport r pg (3 / 2)),
      page_height = viewport_height (getViewport r pg (3 / 2)),
      drawings = [\<lparr>drawn_image = im, at_x = 0, at_y = 0,
                    drawn_width = viewport_width (getViewport r pg (3 / 2)),
                    drawn_height = viewport_height (getViewport r pg (3 / 2))\<rparr>]\<rparr>"

abbreviation page_events :: "('doc, 'pg, 'bm) renderer \<Rightarrow> rat \<Rightarrow> 'pg \<Rightarrow> nat \<Rightarrow> event list" where
  "page_events r quality pg i \<equiv>
     [GetPage i, GetViewport i (3 / 2),
      Render i (page_canvas r pg) (getViewport r pg (3 / 2)),
      Encode i ''image/jpeg'' quality, Embed i,
      AddPage i (viewport_width (getViewport r pg (3 / 2)))
        (viewport_height (getViewport r pg (3 / 2))),
      Cleanup i]"

abbreviation page_converts ::
  "('doc, 'pg, 'bm) renderer \<Rightarrow> (bytes \<Rightarrow> error + pdf_image) \<Rightarrow> rat \<Rightarrow> 'doc \<Rightarrow> nat
     \<Rightarrow> 'pg \<Rightarrow> 'bm \<Rightarrow> bytes \<Rightarrow> pdf_image \<Rightarrow> bool" where
  "page_converts r embedJpg quality pdf i pg bm enc im \<equiv>
     getPage r pdf i = Inr pg \<and>
     render r pg (page_canvas r pg) (getViewport r pg (3 / 2)) = Inr bm \<and>
     toDataURL r bm ''image/jpeg'' quality = Inr enc \<and>
     embedJpg enc = Inr im"

section \<open>An environment for the examples\<close>

text \<open>
  Only the examples use it. The bytes of a source start with one byte of header, and each
  further byte \<open>b\<close> is a page of \<open>b / 2\<close> by \<open>b\<close> points, except that a byte 255 is a page
  that cannot be rendered; the viewport of a page is its size times the scale; the bitmap
  of a rendering is the canvas it was painted on; the encoding of a bitmap is its two
  pixel dimensions, and no byte at all for a bitmap without pixels (\<^verbatim>\<open>toDataURL\<close> then
  gives \<^verbatim>\<open>data:,\<close>); decoding reads the dimensions back from bytes that have two of them
  at least.
\<close>

definition example_renderer :: "(nat list, rat \<times> rat, canvas) renderer" where
  "example_renderer =
     \<lparr>getDocument = (\<lambda>bs. case bs of
                             [] \<Rightarrow> Inl MalformedDocument
                           | header # ps \<Rightarrow> Inr ps),
      pdf_numPages = length,
      getPage = (\<lambda>ps i. if 1 \<le> i \<and> i \<le> length ps
                          then Inr (of_nat (ps ! (i - 1)) / 2, of_nat (ps ! (i - 1)))
                          else Inl PageIndexOutOfRange),
      context_available = True,
      getViewport = (\<lambda>pg s. \<lparr>viewport_width = fst pg * s, viewport_height = snd pg * s\<rparr>),
      render = (\<lambda>pg cv vp. if snd pg = 255 then Inl RenderingFailed else Inr cv),
      toDataURL = (\<lambda>bm mime quality.
                     Inr (if canvas_width bm = 0 \<or> canvas_height bm = 0 then []
                          else [canvas_width bm, canvas_height bm]))\<rparr>"

definition example_embed :: "bytes \<Rightarrow> error + pdf_image" where
  "example_embed bs =
     (case bs of
        w # h # rest \<Rightarrow> Inr \<lparr>image_width = w, image_height = h, image_data = bs\<rparr>
      | _ \<Rightarrow> Inl UndecodableImage)"

text \<open>
  The bytes of the examples list, page by page, the page size in quarter points and then
  the pixel dimensions of the images drawn on the page.
\<close>

definition example_serialize :: "page document \<Rightarrow> bytes" where
  "example_serialize d =
     concat (map (\<lambda>p. [nat \<lfloor>page_width p * 4\<rfloor>, nat \<lfloor>page_height p * 4\<rfloor>] @
                        concat (map (\<lambda>dr. [image_width (drawn_image dr), image_height (drawn_image dr)])
                                  (drawings p)))
               (pages d))"

text \<open>
  For documents whose pages are mere numbers: a file is the list of its pages (and the
  empty file does not load).
\<close>

definition example_load :: "bytes \<Rightarrow> error + nat document" where
  "example_load bs = (if bs = [] then Inl MalformedDocument else Inr \<lparr>pages = bs\<rparr>)"

section \<open>Properties of the page range parser\<close>

text \<open>
  The invariant of \<^verbatim>\<open>pagesToKeep\<close>: no value twice, every value the zero-based index of a
  page of the source.
\<close>

definition indices_ok :: "nat \<Rightarrow> int list \<Rightarrow> bool" where
  "indices_ok totalPages s = (distinct s \<and> (\<forall>x \<in> set s. 0 \<le> x \<and> x < int totalPages))"

text \<open>
  A range part on which the loop is sure to return: one of its two numbers is NaN (the loop
  is not entered), or the start is above the end, or both lie where doubles count exactly.
\<close>

definition ordinary_range :: "string \<Rightarrow> bool" where
  "ordinary_range part =
     (case (element_or_undefined (range_numbers part) 0,
            element_or_undefined (range_numbers part) 1) of
        (Fin a, Fin b) \<Rightarrow> b < a \<or> (- (2 ^ 53) \<le> a \<and> b < 2 ^ 53)
      | (NaN, _) \<Rightarrow> True
      | (_, NaN) \<Rightarrow> True
      | _ \<Rightarrow> False)"

lemma set_set_add: "set (set_add x s) = insert x (set s)"
  by (auto simp: set_add_def)

lemma distinct_set_add: "distinct s \<Longrightarrow> distinct (set_add x s)"
  by (simp add: set_add_def)

lemma js_pred_in_range:
  "js_ge i (Fin 1) \<Longrightarrow> js_le i (Fin (int t)) \<Longrightarrow> 0 \<le> js_pred i \<and> js_pred i < int t"
  by (cases i) (auto simp: js_ge_def)

lemma indices_ok_set_add:
  "indices_ok t s \<Longrightarrow> js_ge i (Fin 1) \<Longrightarrow> js_le i (Fin (int t))
     \<Longrightarrow> indices_ok t (set_add (js_pred i) s)"
  using js_pred_in_range [of i t]
  by (auto simp: indices_ok_def set_set_add distinct_set_add)

text \<open>
  The loop keeps the invariant whenever it returns: by induction on the approximations of
  the loop, the invariant being restored by each round.
\<close>

lemma range_loop_indices_ok:
  assumes "range_loop i e t k = Some r" and "indices_ok t k"
  shows "indices_ok t r"
proof -
  have "indices_ok t k \<longrightarrow> indices_ok t r"
  proof (rule range_loop.raw_induct
      [where P = "\<lambda>i e t k r. indices_ok t k \<longrightarrow> indices_ok t r", OF _ assms(1)], goal_cases)
    case (1 f i e t k r)
    show ?case
    proof (cases "js_le i e")
      case True
      let ?k = "if js_ge i (Fin 1) \<and> js_le i (Fin (int t)) then set_add (js_pred i) k else k"
      from True 1(2) have "f (js_inc i) e t ?k = Some r" by simp
      then have "indices_ok t ?k \<longrightarrow> indices_ok t r" by (rule 1(1))
      then show ?thesis by (simp add: indices_ok_set_add)
    next
      case False
      with 1(2) show ?thesis by simp
    qed
  qed
  with assms(2) show ?thesis by simp
qed

lemma process_part_indices_ok:
  "process_part t part k = Some r \<Longrightarrow> indices_ok t k \<Longrightarrow> indices_ok t r"
  unfolding process_part_def Let_def
  by (auto split: if_splits dest: range_loop_indices_ok simp: indices_ok_set_add)

lemma forEach_part_indices_ok:
  "forEach_part t parts k = Some r \<Longrightarrow> indices_ok t k \<Longrightarrow> indices_ok t r"
  by (induction parts arbitrary: k) (auto split: option.splits dest: process_part_indices_ok)

lemma parseRanges_indices_ok:
  assumes "parseRanges rangeStr totalPages = Some indices"
  shows "sorted indices \<and> indices_ok totalPages indices"
proof -
  from assms obtain s
    where s: "forEach_part totalPages (js_split (CHR '','') rangeStr) [] = Some s"
      and ind: "indices = sort s"
    by (auto simp: parseRanges_def)
  have "indices_ok totalPages []" by (simp add: indices_ok_def)
  with s have "indices_ok totalPages s" by (rule forEach_part_indices_ok)
  with ind show ?thesis by (simp add: indices_ok_def)
qed

lemma round_double_exact: "\<bar>n\<bar> \<le> 2 ^ 53 \<Longrightarrow> round_double n = Fin n"
  by (simp add: round_double_def)

text \<open>
  Between \<open>- 2 ^ 53\<close> and \<open>2 ^ 53\<close> the counter is exact: the loop returns, having added
  the pages of the range that the source has, in ascending order.
\<close>

lemma range_loop_exact:
  assumes "- (2 ^ 53) \<le> a" and "b < 2 ^ 53"
  shows "range_loop (Fin a) (Fin b) t k =
         Some (fold (\<lambda>n s. if 1 \<le> n \<and> n \<le> int t then set_add (n - 1) s else s) [a..b] k)"
  using assms
proof (induction "nat (b + 1 - a)" arbitrary: a k)
  case 0
  then have "b < a" by simp
  then show ?case by (subst range_loop.simps) simp
next
  case (Suc m)
  then have le: "a \<le> b" by linarith
  with Suc.prems have "\<bar>a + 1\<bar> \<le> 2 ^ 53" by linarith
  then have inc: "round_double (a + 1) = Fin (a + 1)" by (rule round_double_exact)
  have m: "m = nat (b + 1 - (a + 1))" using Suc.hyps(2) by linarith
  have bound: "- (2 ^ 53) \<le> a + 1" using Suc.prems(1) by linarith
  have up: "[a..b] = a # [a + 1..b]" using le by (simp add: upto_rec1)
  show ?case
    by (subst range_loop.simps)
       (simp add: le inc up js_ge_def Suc.hyps(1) [OF m bound Suc.prems(2)])
qed

text \<open>
  At \<open>2 ^ 53\<close> the increment gives \<open>2 ^ 53\<close> again: a loop that gets there with an end
  not below it does not return.
\<close>

lemma range_loop_stuck:
  assumes "range_loop i e t k = Some r"
  shows "\<not> (i = Fin (2 ^ 53) \<and> js_le (Fin (2 ^ 53)) e)"
proof (rule range_loop.raw_induct
    [where P = "\<lambda>i e t k r. \<not> (i = Fin (2 ^ 53) \<and> js_le (Fin (2 ^ 53)) e)", OF _ assms], goal_cases)
  case (1 f i e t k r)
  show ?case
  proof
    assume st: "i = Fin (2 ^ 53) \<and> js_le (Fin (2 ^ 53)) e"
    have "round_double (2 ^ 53 + 1) = Fin (2 ^ 53)"
      by code_simp
    with st have inc: "js_inc i = Fin (2 ^ 53)" by simp
    from st 1(2) inc obtain k' where "f (Fin (2 ^ 53)) e t k' = Some r"
      by (auto split: if_splits)
    from 1(1) [OF this] st show False by simp
  qed
qed

lemma range_loop_never_returns:
  assumes "- (2 ^ 53) \<le> a" and "a \<le> 2 ^ 53" and "2 ^ 53 \<le> b"
  shows "range_loop (Fin a) (Fin b) t k = None"
  using assms(1,2)
proof (induction "nat (2 ^ 53 - a)" arbitrary: a k)
  case 0
  then have "a = 2 ^ 53" by simp
  with assms(3) range_loop_stuck [of "Fin a" "Fin b" t k] show ?case
    by (cases "range_loop (Fin a) (Fin b) t k") auto
next
  case (Suc m)
  then have lt: "a < 2 ^ 53" by linarith
  with Suc.prems have "\<bar>a + 1\<bar> \<le> 2 ^ 53" by linarith
  then have inc: "round_double (a + 1) = Fin (a + 1)" by (rule round_double_exact)
  have m: "m = nat (2 ^ 53 - (a + 1))" using Suc.hyps(2) by linarith
  have b1: "- (2 ^ 53) \<le> a + 1" using Suc.prems(1) by linarith
  have b2: "a + 1 \<le> 2 ^ 53" using lt by linarith
  have le: "a \<le> b" using lt assms(3) by linarith
  show ?case
    by (subst range_loop.simps) (simp add: le inc Suc.hyps(1) [OF m b1 b2])
qed

text \<open>
  So the range parsing does not return on an expression such as \<^verbatim>\<open>1-9007199254740992\<close>,
  whose end is \<open>2 ^ 53\<close>.
\<close>

lemma parseRanges_huge_end_never_returns: "parseRanges ''1-9007199254740992'' 10 = None"
proof -
  have nums: "range_numbers ''1-9007199254740992'' = [Fin 1, Fin (2 ^ 53)]"
    by code_simp
  have sp: "js_split (CHR '','') ''1-9007199254740992'' = [''1-9007199254740992'']"
    by code_simp
  have inc: "js_includes ''1-9007199254740992'' (CHR ''-'')"
    by code_simp
  have "range_loop (Fin 1) (Fin (2 ^ 53)) 10 [] = None"
    by (rule range_loop_never_returns) simp_all
  then have "process_part 10 ''1-9007199254740992'' [] = None"
    unfolding process_part_def Let_def nums using inc
    by (simp add: element_or_undefined_def)
  then show ?thesis
    by (simp add: parseRanges_def sp)
qed

section \<open>Properties of documents\<close>

lemma pages_addPages: "pages (addPages d ps) = pages d @ ps"
  by (induction ps arbitrary: d) (simp_all add: addPage_def)

lemma addPages_create: "addPages create ps = \<lparr>pages = ps\<rparr>"
  using pages_addPages [of create ps] by (cases "addPages create ps") (simp add: create_def)

lemma copyPages_in_range:
  "(\<forall>k \<in> set ks. 0 \<le> k \<and> k < int (length (pages src)))
     \<Longrightarrow> copyPages src ks = Inr (map (\<lambda>k. pages src ! nat k) ks)"
  by (induction ks) simp_all

lemma copyPages_getPageIndices: "copyPages src (getPageIndices src) = Inr (pages src)"
proof -
  have "copyPages src (getPageIndices src) = Inr (map (\<lambda>k. pages src ! nat k) (getPageIndices src))"
    by (rule copyPages_in_range) (auto simp: getPageIndices_def)
  also have "map (\<lambda>k. pages src ! nat k) (getPageIndices src) = pages src"
    by (simp add: getPageIndices_def o_def map_nth)
  finally show ?thesis .
qed

lemma splitPdf_loaded:
  assumes "load (arrayBuffer f) = Inr srcPdf"
  shows "splitPdf load save f rangeStr =
     (case parseRanges rangeStr (getPageCount srcPdf) of
        None \<Rightarrow> None
      | Some indices \<Rightarrow>
          if indices = [] then Some (Inl (Error ''Invalid page range''))
          else Some (Inr (save \<lparr>pages = map (\<lambda>k. pages srcPdf ! nat k) indices\<rparr>)))"
proof (cases "parseRanges rangeStr (getPageCount srcPdf)")
  case None
  with assms show ?thesis by (simp add: splitPdf_def)
next
  case (Some indices)
  from parseRanges_indices_ok [OF Some]
  have "\<forall>k \<in> set indices. 0 \<le> k \<and> k < int (length (pages srcPdf))"
    by (simp add: indices_ok_def getPageCount_def)
  then have "copyPages srcPdf indices = Inr (map (\<lambda>k. pages srcPdf ! nat k) indices)"
    by (rule copyPages_in_range)
  with assms Some show ?thesis
    by (simp add: splitPdf_def addPages_create)
qed

text \<open>On such an expression splitPdf, the source loaded, neither returns nor raises.\<close>

lemma splitPdf_huge_end_never_returns:
  assumes "load (arrayBuffer f) = Inr srcPdf" and "getPageCount srcPdf = 10"
  shows "splitPdf load save f ''1-9007199254740992'' = None"
  by (simp add: splitPdf_loaded [of load f srcPdf save, OF assms(1)] assms(2)
      parseRanges_huge_end_never_returns)

lemma merge_loop_loaded:
  "map (\<lambda>f. load (arrayBuffer f)) files = map Inr docs
    \<Longrightarrow> merge_loop load files mergedPdf = Inr (mergedPdf\<lparr>pages := pages mergedPdf @ concat (map pages docs)\<rparr>)"
proof (induction files arbitrary: docs mergedPdf)
  case Nil
  then show ?case by simp
next
  case (Cons f files)
  then obtain d ds where docs: "docs = d # ds" and d: "load (arrayBuffer f) = Inr d"
    and ds: "map (\<lambda>f. load (arrayBuffer f)) files = map Inr ds"
    by (cases docs) auto
  show ?case
    by (simp add: d docs copyPages_getPageIndices Cons.IH [OF ds] pages_addPages)
qed

section \<open>The examples of the range parser\<close>

lemma parseRanges_1_3_5: "parseRanges ''1-3,5'' 10 = Some [0, 1, 2, 4]"
  by code_simp

lemma parseRanges_5_2: "parseRanges ''5-2'' 10 = Some []"
  by code_simp

lemma parseRanges_1_abc_3: "parseRanges ''1, abc, 3'' 10 = Some [0, 2]"
  by code_simp

lemma parseRanges_1_2_10: "parseRanges ''1-2,10'' 10 = Some [0, 1, 9]"
  by code_simp

text \<open>
  C2, as stated, fails on its first example: on a 10-page document \<^verbatim>\<open>1-3,5\<close> selects the
  first three pages and the fifth, four indices, and not the five indices 0 to 4.
\<close>

theorem parseRanges_1_3_5_not_five_indices:
  "parseRanges ''1-3,5'' 10 \<noteq> Some [0, 1, 2, 3, 4]"
  by (simp add: parseRanges_1_3_5)

text \<open>
  C2, amended. On a 10-page document \<^verbatim>\<open>1-3,5\<close> parses to the indices 0, 1, 2, 4;
  \<^verbatim>\<open>5-2\<close> parses to no index, and splitPdf then fails with the invalid-range error;
  \<^verbatim>\<open>1, abc, 3\<close> parses to 0 and 2, the part \<^verbatim>\<open> abc\<close> leaving the set as it was.
\<close>

theorem parseRanges_examples:
  "parseRanges ''1-3,5'' 10 = Some [0, 1, 2, 4] \<and>
   parseRanges ''5-2'' 10 = Some [] \<and>
   (load (arrayBuffer f) = Inr srcPdf \<longrightarrow> getPageCount srcPdf = 10 \<longrightarrow>
      splitPdf load save f ''5-2'' = Some (Inl (Error ''Invalid page range''))) \<and>
   parseRanges ''1, abc, 3'' 10 = Some [0, 2] \<and>
   process_part 10 '' abc'' [0] = Some [0]"
proof -
  have "splitPdf load save f ''5-2'' = Some (Inl (Error ''Invalid page range''))"
    if "load (arrayBuffer f) = Inr srcPdf" and "getPageCount srcPdf = 10"
    using that by (simp add: splitPdf_loaded parseRanges_5_2)
  moreover have "process_part 10 '' abc'' [0] = Some [0]"
    by code_simp
  ultimately show ?thesis
    using parseRanges_1_3_5 parseRanges_5_2 parseRanges_1_abc_3 by blast
qed

theorem parseRanges_examples_witness:
  "splitPdf (\<lambda>bs. Inr \<lparr>pages = [1, 2, 3, 4, 5, 6, 7, 8, 9, 10 :: nat]\<rparr>) pages
      \<lparr>mime_type = ''application/pdf'', arrayBuffer = []\<rparr> ''5-2''
     = Some (Inl (Error ''Invalid page range''))"
  using parseRanges_examples
    [where load = "\<lambda>bs. Inr \<lparr>pages = [1, 2, 3, 4, 5, 6, 7, 8, 9, 10 :: nat]\<rparr>"
       and srcPdf = "\<lparr>pages = [1, 2, 3, 4, 5, 6, 7, 8, 9, 10 :: nat]\<rparr>"
       and f = "\<lparr>mime_type = ''application/pdf'', arrayBuffer = []\<rparr>" and save = pages]
  by (simp add: getPageCount_def)

text \<open>
  \<^verbatim>\<open>parseInt\<close> reads a decimal numeral up to the first character that is no digit, and
  ignores the rest (a lone \<^verbatim>\<open>0\<close> before \<^verbatim>\<open>x\<close> apart, which announces a hexadecimal numeral).
\<close>

lemma is_digit_10: "is_digit 10 c \<longleftrightarrow> 48 \<le> (of_char c :: int) \<and> (of_char c :: int) \<le> 57"
  by (auto simp: is_digit_def digit_val_def Let_def)

lemma digit_not_special:
  assumes "is_digit 10 c"
  shows "\<not> is_white_space c" "c \<noteq> CHR ''+''" "c \<noteq> CHR ''-''" "c \<noteq> CHR ''x''" "c \<noteq> CHR ''X''"
  using assms by (auto simp: is_digit_10 is_white_space_def)

lemma parseInt_numeric_prefix:
  assumes ne: "ds \<noteq> []" and dig: "\<forall>d \<in> set ds. is_digit 10 d" and stop: "\<not> is_digit 10 c"
    and nohex: "\<not> (ds = ''0'' \<and> (c = CHR ''x'' \<or> c = CHR ''X''))"
  shows "parseInt (ds @ c # rest) = round_double (digits_value 10 ds)"
proof -
  from ne obtain d ds' where ds: "ds = d # ds'" by (cases ds) auto
  with dig have d: "is_digit 10 d" by simp
  note sp = digit_not_special [OF d]
  have hex: "\<not> (case ds @ c # rest of a # b # _ \<Rightarrow> a = CHR ''0'' \<and> (b = CHR ''x'' \<or> b = CHR ''X'')
                 | _ \<Rightarrow> False)"
  proof (cases ds')
    case Nil
    with ds nohex show ?thesis by auto
  next
    case (Cons e es)
    with ds dig have "is_digit 10 e" by simp
    from digit_not_special(4,5) [OF this] ds Cons show ?thesis by simp
  qed
  have tw: "takeWhile (is_digit 10) (ds @ c # rest) = ds"
    using dig stop by (simp add: takeWhile_append2)
  have s1: "dropWhile is_white_space (ds @ c # rest) = ds @ c # rest"
    using ds sp(1) by simp
  show ?thesis
    unfolding parseInt_def s1 Let_def
    using hex tw ne sp ds by (simp split: list.splits)
qed

text \<open>
  C9. A term made of an integer followed by other characters is taken as that integer:
  \<^verbatim>\<open>parseInt\<close> reads the longest numeric prefix, so \<^verbatim>\<open>3x\<close> is 3 and selects, on a 10-page
  document, the index 2.
\<close>

theorem parseInt_takes_numeric_prefix:
  "parseInt ''3x'' = Fin 3 \<and> parseRanges ''3x'' 10 = Some [2]"
  by code_simp

section \<open>Properties of splitPdf\<close>

lemma process_part_range:
  assumes "js_includes part (CHR ''-'')"
  shows "process_part t part keep =
     (if \<not> isNaN (element_or_undefined (range_numbers part) 0) \<and>
         \<not> isNaN (element_or_undefined (range_numbers part) 1)
      then range_loop (element_or_undefined (range_numbers part) 0)
             (element_or_undefined (range_numbers part) 1) t keep
      else Some keep)"
  using assms by (simp add: process_part_def Let_def)

lemma process_part_single:
  assumes "\<not> js_includes part (CHR ''-'')"
  shows "process_part t part keep =
     (if \<not> isNaN (parseInt (trim part)) \<and> js_ge (parseInt (trim part)) (Fin 1) \<and>
         js_le (parseInt (trim part)) (Fin (int t))
      then Some (set_add (js_pred (parseInt (trim part))) keep)
      else Some keep)"
  using assms by (simp add: process_part_def Let_def)

lemma range_loop_empty: "\<not> js_le i e \<Longrightarrow> range_loop i e t k = Some k"
  by (subst range_loop.simps) simp

lemma range_loop_adds_pages_only:
  assumes "range_loop i e t k = Some r"
  shows "set r \<subseteq> set k \<union> {0 ..< int t}"
proof (rule range_loop.raw_induct
    [where P = "\<lambda>i e t k r. set r \<subseteq> set k \<union> {0 ..< int t}", OF _ assms], goal_cases)
  case (1 f i e t k r)
  show ?case
  proof (cases "js_le i e")
    case True
    let ?k = "if js_ge i (Fin 1) \<and> js_le i (Fin (int t)) then set_add (js_pred i) k else k"
    from True 1(2) have "f (js_inc i) e t ?k = Some r" by simp
    then have "set r \<subseteq> set ?k \<union> {0 ..< int t}" by (rule 1(1))
    moreover have "set ?k \<subseteq> set k \<union> {0 ..< int t}"
      using js_pred_in_range [of i t] by (auto simp: set_set_add)
    ultimately show ?thesis by blast
  next
    case False
    with 1(2) show ?thesis by auto
  qed
qed

lemma process_part_adds_pages_only:
  assumes "process_part t part keep = Some keep'"
  shows "set keep' \<subseteq> set keep \<union> {0 ..< int t}"
proof (cases "js_includes part (CHR ''-'')")
  case True
  with assms show ?thesis
    by (auto simp: process_part_range split: if_splits dest: range_loop_adds_pages_only)
next
  case False
  with assms js_pred_in_range [of "parseInt (trim part)" t] show ?thesis
    by (auto simp: process_part_single set_set_add split: if_splits)
qed

text \<open>
  The parsing returns on every expression whose range parts are ordinary in this sense.
\<close>

lemma process_part_returns:
  assumes "js_includes part (CHR ''-'') \<longrightarrow> ordinary_range part"
  shows "\<exists>r. process_part t part k = Some r"
proof (cases "js_includes part (CHR ''-'')")
  case False
  then show ?thesis by (simp add: process_part_single)
next
  case True
  with assms have o: "ordinary_range part" by simp
  show ?thesis
  proof (cases "isNaN (element_or_undefined (range_numbers part) 0) \<or>
                isNaN (element_or_undefined (range_numbers part) 1)")
    case True
    with \<open>js_includes part (CHR ''-'')\<close> show ?thesis
      by (auto simp: process_part_range)
  next
    case False
    with o obtain a b where ab: "element_or_undefined (range_numbers part) 0 = Fin a"
      "element_or_undefined (range_numbers part) 1 = Fin b"
      and c: "b < a \<or> (- (2 ^ 53) \<le> a \<and> b < 2 ^ 53)"
      by (auto simp: ordinary_range_def split: jsnum.splits)
    from c show ?thesis
    proof
      assume "b < a"
      with True ab show ?thesis by (simp add: process_part_range range_loop_empty)
    next
      assume "- (2 ^ 53) \<le> a \<and> b < 2 ^ 53"
      with True ab show ?thesis by (simp add: process_part_range range_loop_exact)
    qed
  qed
qed

lemma forEach_part_returns:
  assumes "\<forall>part \<in> set parts. js_includes part (CHR ''-'') \<longrightarrow> ordinary_range part"
  shows "\<exists>r. forEach_part t parts k = Some r"
  using assms
proof (induction parts arbitrary: k)
  case Nil
  then show ?case by simp
next
  case (Cons part parts)
  then obtain k' where "process_part t part k = Some k'"
    using process_part_returns [of part t k] by auto
  with Cons show ?case by simp
qed

lemma parseRanges_returns:
  assumes "\<forall>part \<in> set (js_split (CHR '','') rangeStr).
             js_includes part (CHR ''-'') \<longrightarrow> ordinary_range part"
  shows "\<exists>indices. parseRanges rangeStr totalPages = Some indices"
  using forEach_part_returns [OF assms, of totalPages "[]"]
  by (auto simp: parseRanges_def)

text \<open>
  C1. Whatever the range expression and the page count, the indices that the range parsing
  of splitPdf produces are strictly ascending, without duplicates, and each of them is at
  least 0 and below the page count. The parsing does produce them on every expression
  whose range parts are ordinary (none with bounds where doubles stop counting exactly).
\<close>

theorem parseRanges_ascending_in_range:
  "(parseRanges rangeStr totalPages = Some indices \<longrightarrow>
      sorted_wrt (<) indices \<and> distinct indices \<and>
      (\<forall>k \<in> set indices. 0 \<le> k \<and> k < int totalPages)) \<and>
   ((\<forall>part \<in> set (js_split (CHR '','') rangeStr).
        js_includes part (CHR ''-'') \<longrightarrow> ordinary_range part) \<longrightarrow>
      (\<exists>indices. parseRanges rangeStr totalPages = Some indices))"
proof (intro conjI impI)
  assume "parseRanges rangeStr totalPages = Some indices"
  from parseRanges_indices_ok [OF this]
  show "sorted_wrt (<) indices" and "distinct indices"
    and "\<forall>k \<in> set indices. 0 \<le> k \<and> k < int totalPages"
    by (auto simp: indices_ok_def strict_sorted_iff)
next
  assume "\<forall>part \<in> set (js_split (CHR '','') rangeStr).
            js_includes part (CHR ''-'') \<longrightarrow> ordinary_range part"
  then show "\<exists>indices. parseRanges rangeStr totalPages = Some indices"
    by (rule parseRanges_returns)
qed

theorem parseRanges_ascending_in_range_witness:
  "parseRanges ''4, 2-3, 3, 7-9'' 8 = Some [1, 2, 3, 6, 7] \<and>
   sorted_wrt (<) [1, 2, 3, 6, 7 :: int] \<and> distinct [1, 2, 3, 6, 7 :: int] \<and>
   set [1, 2, 3, 6, 7 :: int] \<subseteq> {0 ..< int 8} \<and>
   (\<exists>indices. parseRanges ''4, 2-3, 3, 7-9'' 8 = Some indices)"
proof -
  have p: "parseRanges ''4, 2-3, 3, 7-9'' 8 = Some [1, 2, 3, 6, 7]"
    by code_simp
  have o: "\<forall>part \<in> set (js_split (CHR '','') ''4, 2-3, 3, 7-9'').
             js_includes part (CHR ''-'') \<longrightarrow> ordinary_range part"
    by code_simp
  from parseRanges_ascending_in_range [of "''4, 2-3, 3, 7-9''" 8 "[1, 2, 3, 6, 7]"] p o
  show ?thesis by auto
qed

text \<open>
  C3. Once the source has loaded, splitPdf raises the invalid-range error exactly when the
  parsing has resolved to no index, and raises nothing else. No single part raises: a
  range whose start is above its end leaves the set as it is; so does a part that does not
  parse as integers, and a page number outside 1 to the page count. Of a range (with
  bounds where doubles count exactly) only the pages that the source has are added, and
  whatever a part adds is the index of a page of the source.
\<close>

theorem splitPdf_raises_iff_no_index:
  assumes "load (arrayBuffer f) = Inr srcPdf"
  shows
    "(splitPdf load save f rangeStr = Some (Inl (Error ''Invalid page range''))
        \<longleftrightarrow> parseRanges rangeStr (getPageCount srcPdf) = Some []) \<and>
     (\<forall>e. splitPdf load save f rangeStr = Some (Inl e) \<longrightarrow> e = Error ''Invalid page range'') \<and>
     (js_includes part (CHR ''-'') \<longrightarrow>
        element_or_undefined (range_numbers part) 0 = Fin a \<longrightarrow>
        element_or_undefined (range_numbers part) 1 = Fin b \<longrightarrow> b < a \<longrightarrow>
        process_part t part keep = Some keep) \<and>
     (js_includes part (CHR ''-'') \<longrightarrow>
        isNaN (element_or_undefined (range_numbers part) 0) \<or>
        isNaN (element_or_undefined (range_numbers part) 1) \<longrightarrow>
        process_part t part keep = Some keep) \<and>
     (\<not> js_includes part (CHR ''-'') \<longrightarrow> isNaN (parseInt (trim part)) \<longrightarrow>
        process_part t part keep = Some keep) \<and>
     (\<not> js_includes part (CHR ''-'') \<longrightarrow> parseInt (trim part) = Fin n \<longrightarrow> n < 1 \<or> int t < n \<longrightarrow>
        process_part t part keep = Some keep) \<and>
     (js_includes part (CHR ''-'') \<longrightarrow>
        element_or_undefined (range_numbers part) 0 = Fin a \<longrightarrow>
        element_or_undefined (range_numbers part) 1 = Fin b \<longrightarrow> - (2 ^ 53) \<le> a \<longrightarrow> b < 2 ^ 53 \<longrightarrow>
        process_part t part keep =
          Some (fold (\<lambda>n s. if 1 \<le> n \<and> n \<le> int t then set_add (n - 1) s else s) [a..b] keep)) \<and>
     (process_part t part keep = Some keep' \<longrightarrow> set keep' \<subseteq> set keep \<union> {0 ..< int t})"
proof (intro conjI impI allI)
  note loaded = splitPdf_loaded [of load f srcPdf save rangeStr, OF assms]
  show "(splitPdf load save f rangeStr = Some (Inl (Error ''Invalid page range'')))
        = (parseRanges rangeStr (getPageCount srcPdf) = Some [])"
    by (simp add: loaded split: option.splits)
next
  fix e assume "splitPdf load save f rangeStr = Some (Inl e)"
  then show "e = Error ''Invalid page range''"
    using splitPdf_loaded [of load f srcPdf save rangeStr, OF assms]
    by (simp split: option.splits if_splits)
next
  assume "js_includes part (CHR ''-'')"
    and "element_or_undefined (range_numbers part) 0 = Fin a"
    and "element_or_undefined (range_numbers part) 1 = Fin b" and "b < a"
  then show "process_part t part keep = Some keep"
    by (simp add: process_part_range range_loop_empty)
next
  assume "js_includes part (CHR ''-'')"
    and "isNaN (element_or_undefined (range_numbers part) 0) \<or>
         isNaN (element_or_undefined (range_numbers part) 1)"
  then show "process_part t part keep = Some keep"
    by (auto simp: process_part_range)
next
  assume "\<not> js_includes part (CHR ''-'')" and "isNaN (parseInt (trim part))"
  then show "process_part t part keep = Some keep"
    by (simp add: process_part_single)
next
  assume "\<not> js_includes part (CHR ''-'')" and "parseInt (trim part) = Fin n"
    and "n < 1 \<or> int t < n"
  then show "process_part t part keep = Some keep"
    by (auto simp: process_part_single js_ge_def)
next
  assume "js_includes part (CHR ''-'')"
    and "element_or_undefined (range_numbers part) 0 = Fin a"
    and "element_or_undefined (range_numbers part) 1 = Fin b"
    and "- (2 ^ 53) \<le> a" and "b < 2 ^ 53"
  then show "process_part t part keep =
          Some (fold (\<lambda>n s. if 1 \<le> n \<and> n \<le> int t then set_add (n - 1) s else s) [a..b] keep)"
    by (simp add: process_part_range range_loop_exact)
next
  assume "process_part t part keep = Some keep'"
  then show "set keep' \<subseteq> set keep \<union> {0 ..< int t}"
    by (rule process_part_adds_pages_only)
qed

theorem splitPdf_raises_iff_no_index_witness:
  "splitPdf (\<lambda>bs. Inr \<lparr>pages = [11, 12, 13, 14, 15, 16, 17, 18, 19, 20 :: nat]\<rparr>) pages
      \<lparr>mime_type = ''application/pdf'', arrayBuffer = []\<rparr> ''5-2''
     = Some (Inl (Error ''Invalid page range'')) \<and>
   process_part 10 ''5-2'' [7] = Some [7] \<and>
   process_part 10 ''3-x'' [7] = Some [7] \<and>
   process_part 10 ''abc'' [7] = Some [7] \<and>
   process_part 10 ''11'' [7] = Some [7] \<and>
   process_part 10 '' 9-12'' [7] = Some [7, 8, 9]"
proof -
  let ?src = "\<lparr>pages = [11, 12, 13, 14, 15, 16, 17, 18, 19, 20 :: nat]\<rparr>"
  let ?f = "\<lparr>mime_type = ''application/pdf'', arrayBuffer = []\<rparr>"
  have n: "getPageCount ?src = 10" by (simp add: getPageCount_def)
  have l: "(\<lambda>bs. Inr ?src) (arrayBuffer ?f) = Inr ?src" by simp
  note inst = splitPdf_raises_iff_no_index [where load = "\<lambda>bs. Inr ?src" and f = ?f
      and srcPdf = ?src and save = pages and rangeStr = "''5-2''" and t = 10 and keep = "[7]", OF l]
  have i1: "js_includes ''5-2'' (CHR ''-'')" "js_includes ''3-x'' (CHR ''-'')"
    "js_includes '' 9-12'' (CHR ''-'')" "\<not> js_includes ''abc'' (CHR ''-'')"
    "\<not> js_includes ''11'' (CHR ''-'')"
    by (simp_all add: js_includes_def)
  have n1: "element_or_undefined (range_numbers ''5-2'') 0 = Fin 5"
    "element_or_undefined (range_numbers ''5-2'') 1 = Fin 2"
    "element_or_undefined (range_numbers '' 9-12'') 0 = Fin 9"
    "element_or_undefined (range_numbers '' 9-12'') 1 = Fin 12"
    "isNaN (element_or_undefined (range_numbers ''3-x'') 1)"
    "isNaN (parseInt (trim ''abc''))"
    "parseInt (trim ''11'') = Fin 11"
    by code_simp+
  have f: "fold (\<lambda>n s. if 1 \<le> n \<and> n \<le> int 10 then set_add (n - 1) s else s) [9..12] [7]
      = [7, 8, 9]"
    by code_simp
  have c: "(2::int) < 5" "(11::int) < 1 \<or> int 10 < 11" "- (2 ^ 53) \<le> (9::int)" "(12::int) < 2 ^ 53"
    by simp_all
  have p: "parseRanges ''5-2'' (getPageCount ?src) = Some []"
    by (simp only: n parseRanges_5_2)
  have "splitPdf (\<lambda>bs. Inr ?src) pages ?f ''5-2'' = Some (Inl (Error ''Invalid page range''))"
    using inst [where part = "''5-2''"] p by blast
  moreover have "process_part 10 ''5-2'' [7] = Some [7]"
    using inst [where part = "''5-2''" and a = 5 and b = 2] i1(1) n1(1,2) c(1) by blast
  moreover have "process_part 10 ''3-x'' [7] = Some [7]"
    using inst [where part = "''3-x''"] i1(2) n1(5) by blast
  moreover have "process_part 10 ''abc'' [7] = Some [7]"
    using inst [where part = "''abc''"] i1(4) n1(6) by blast
  moreover have "process_part 10 ''11'' [7] = Some [7]"
    using inst [where part = "''11''" and n = 11] i1(5) n1(7) c(2) by blast
  moreover have "process_part 10 '' 9-12'' [7] = Some [7, 8, 9]"
    using inst [where part = "'' 9-12''" and a = 9 and b = 12] i1(3) n1(3,4) c(3,4)
    unfolding f by blast
  ultimately show ?thesis by blast
qed

text \<open>
  C4. Once the source has loaded and the expression has resolved to a non-empty list of
  indices, splitPdf returns the serialisation of the document whose pages are the source
  pages at these indices, in ascending order of the indices (each of them the index of a
  page of the source). On a 10-page source, \<^verbatim>\<open>1-2,10\<close> gives the three pages 1, 2 and 10
  of the source, in that order.
\<close>

theorem splitPdf_copies_selected_pages:
  assumes "load (arrayBuffer f) = Inr srcPdf"
  shows
    "(parseRanges rangeStr (getPageCount srcPdf) = Some indices \<longrightarrow> indices \<noteq> [] \<longrightarrow>
        splitPdf load save f rangeStr
          = Some (Inr (save \<lparr>pages = map (\<lambda>k. pages srcPdf ! nat k) indices\<rparr>)) \<and>
        sorted_wrt (<) indices \<and>
        (\<forall>k \<in> set indices. 0 \<le> k \<and> nat k < length (pages srcPdf))) \<and>
     (getPageCount srcPdf = 10 \<longrightarrow>
        splitPdf load save f ''1-2,10''
          = Some (Inr (save \<lparr>pages = [pages srcPdf ! 0, pages srcPdf ! 1, pages srcPdf ! 9]\<rparr>)))"
proof (intro conjI impI)
  assume p: "parseRanges rangeStr (getPageCount srcPdf) = Some indices" and ne: "indices \<noteq> []"
  from p ne show "splitPdf load save f rangeStr
      = Some (Inr (save \<lparr>pages = map (\<lambda>k. pages srcPdf ! nat k) indices\<rparr>))"
    by (simp add: splitPdf_loaded [of load f srcPdf save rangeStr, OF assms])
  from parseRanges_indices_ok [OF p] show "sorted_wrt (<) indices"
    by (simp add: indices_ok_def strict_sorted_iff)
  from parseRanges_indices_ok [OF p]
  show "\<forall>k \<in> set indices. 0 \<le> k \<and> nat k < length (pages srcPdf)"
    by (auto simp: indices_ok_def getPageCount_def)
next
  assume "getPageCount srcPdf = 10"
  then show "splitPdf load save f ''1-2,10''
      = Some (Inr (save \<lparr>pages = [pages srcPdf ! 0, pages srcPdf ! 1, pages srcPdf ! 9]\<rparr>))"
    by (simp add: splitPdf_loaded [of load f srcPdf save "''1-2,10''", OF assms] parseRanges_1_2_10)
qed

theorem splitPdf_copies_selected_pages_witness:
  "splitPdf (\<lambda>bs. Inr \<lparr>pages = [11, 12, 13, 14, 15, 16, 17, 18, 19, 20 :: nat]\<rparr>) pages
      \<lparr>mime_type = ''application/pdf'', arrayBuffer = []\<rparr> ''1-2,10''
     = Some (Inr [11, 12, 20]) \<and>
   splitPdf (\<lambda>bs. Inr \<lparr>pages = [11, 12, 13, 14, 15, 16, 17, 18, 19, 20 :: nat]\<rparr>) pages
      \<lparr>mime_type = ''application/pdf'', arrayBuffer = []\<rparr> ''1-3,5''
     = Some (Inr [11, 12, 13, 15])"
proof -
  let ?src = "\<lparr>pages = [11, 12, 13, 14, 15, 16, 17, 18, 19, 20 :: nat]\<rparr>"
  let ?f = "\<lparr>mime_type = ''application/pdf'', arrayBuffer = []\<rparr>"
  have n: "getPageCount ?src = 10" by (simp add: getPageCount_def)
  have l: "(\<lambda>bs. Inr ?src) (arrayBuffer ?f) = Inr ?src" by simp
  have p: "parseRanges ''1-3,5'' (getPageCount ?src) = Some [0, 1, 2, 4]"
    by (simp only: n parseRanges_1_3_5)
  from splitPdf_copies_selected_pages
    [where load = "\<lambda>bs. Inr ?src" and f = ?f and srcPdf = ?src and save = pages
       and rangeStr = "''1-3,5''" and indices = "[0, 1, 2, 4]", OF l] n p
  show ?thesis by simp
qed

section \<open>Properties of saving\<close>

text \<open>Saving writes the document as it stands, unless it has no page.\<close>

lemma pdf_save_pages:
  "pdf_save defaultPage serialize d =
     serialize \<lparr>pages = (if pages d = [] then [defaultPage] else pages d)\<rparr>"
  by (cases d) (simp add: pdf_save_def getPageCount_def addPage_def)

text \<open>
  The document that splitPdf saves has a page for each index, and there is an index: the
  default page is never added there, and saving is writing the document as it stands.
\<close>

lemma splitPdf_pdf_save:
  "splitPdf load (pdf_save defaultPage serialize) f rangeStr = splitPdf load serialize f rangeStr"
proof (cases "load (arrayBuffer f)")
  case (Inl e)
  then show ?thesis by (simp add: splitPdf_def)
next
  case (Inr srcPdf)
  show ?thesis
    unfolding splitPdf_loaded [of load f srcPdf, OF Inr]
    by (simp add: pdf_save_pages split: option.splits)
qed

section \<open>Properties of mergePdfs\<close>

lemma mergePdfs_loaded:
  assumes "map (\<lambda>f. load (arrayBuffer f)) files = map Inr docs"
  shows "mergePdfs load defaultPage serialize files =
     Inr (serialize \<lparr>pages = (if concat (map pages docs) = [] then [defaultPage]
                                else concat (map pages docs))\<rparr>)"
  by (simp add: mergePdfs_def merge_loop_loaded [OF assms] create_def pdf_save_pages)

lemma mergePdfs_none: "mergePdfs load defaultPage serialize [] = Inr (serialize \<lparr>pages = [defaultPage]\<rparr>)"
  using mergePdfs_loaded [of load "[]" "[]" defaultPage serialize] by simp

lemma example_merge_none: "mergePdfs example_load 0 pages [] = Inr [0]"
  by (simp add: mergePdfs_none)

text \<open>
  C5, as stated, fails for the sequence without files (and so for every sequence of inputs
  that have no page between them): the sum of the page counts is 0, but the merged
  document is saved with the default page, and the result has one page. Here the pages are
  numbers, the default page is 0 and the bytes of a document are the list of its pages.
\<close>

theorem mergePdfs_no_pages_count_is_not_sum:
  "mergePdfs example_load 0 pages [] = Inr [0] \<and>
   length [0 :: nat] \<noteq> sum_list (map getPageCount ([] :: nat document list))"
  using example_merge_none by simp

text \<open>
  C5, amended. When every file loads, mergePdfs returns the serialisation of the document
  whose pages are the pages of the loaded documents, each document's pages in their order
  and the documents in the order of the files, or, when they have no page between them, of
  the document with the default page alone. So, for any way \<open>pageCount\<close> of reading the page
  count off the bytes, the page count of the result is the sum of the page counts of the
  inputs when these have a page, and 1 otherwise. Merging A of three pages and B of two
  gives the five pages A1, A2, A3, B1, B2 in this order.
\<close>

theorem mergePdfs_concatenates:
  "(map (\<lambda>f. load (arrayBuffer f)) files = map Inr docs \<longrightarrow>
      mergePdfs load defaultPage serialize files =
        Inr (serialize \<lparr>pages = (if concat (map pages docs) = [] then [defaultPage]
                                   else concat (map pages docs))\<rparr>) \<and>
      ((\<forall>d. pageCount (serialize d) = getPageCount d) \<longrightarrow>
         (\<exists>out. mergePdfs load defaultPage serialize files = Inr out \<and>
                pageCount out = (if concat (map pages docs) = [] then 1
                                 else sum_list (map getPageCount docs))))) \<and>
   (load (arrayBuffer fA) = Inr \<lparr>pages = [pa, pb, pc]\<rparr> \<longrightarrow>
    load (arrayBuffer fB) = Inr \<lparr>pages = [qa, qb]\<rparr> \<longrightarrow>
      mergePdfs load defaultPage serialize [fA, fB] = Inr (serialize \<lparr>pages = [pa, pb, pc, qa, qb]\<rparr>))"
proof (intro conjI impI)
  assume l: "map (\<lambda>f. load (arrayBuffer f)) files = map Inr docs"
  show m: "mergePdfs load defaultPage serialize files =
        Inr (serialize \<lparr>pages = (if concat (map pages docs) = [] then [defaultPage]
                                   else concat (map pages docs))\<rparr>)"
    by (rule mergePdfs_loaded [OF l])
  assume c: "\<forall>d. pageCount (serialize d) = getPageCount d"
  have "length (concat (map pages docs)) = sum_list (map getPageCount docs)"
    by (simp add: getPageCount_def [abs_def] length_concat o_def)
  then have "pageCount (serialize \<lparr>pages = (if concat (map pages docs) = [] then [defaultPage]
                                   else concat (map pages docs))\<rparr>)
      = (if concat (map pages docs) = [] then 1 else sum_list (map getPageCount docs))"
    by (simp add: c getPageCount_def)
  with m show "\<exists>out. mergePdfs load defaultPage serialize files = Inr out \<and>
                pageCount out = (if concat (map pages docs) = [] then 1
                                 else sum_list (map getPageCount docs))"
    by simp
next
  assume "load (arrayBuffer fA) = Inr \<lparr>pages = [pa, pb, pc]\<rparr>"
    and "load (arrayBuffer fB) = Inr \<lparr>pages = [qa, qb]\<rparr>"
  then have "map (\<lambda>f. load (arrayBuffer f)) [fA, fB]
      = map Inr [\<lparr>pages = [pa, pb, pc]\<rparr>, \<lparr>pages = [qa, qb]\<rparr>]"
    by simp
  from mergePdfs_loaded [OF this]
  show "mergePdfs load defaultPage serialize [fA, fB] = Inr (serialize \<lparr>pages = [pa, pb, pc, qa, qb]\<rparr>)"
    by simp
qed

theorem mergePdfs_concatenates_witness:
  "mergePdfs example_load 0 pages
     [\<lparr>mime_type = ''application/pdf'', arrayBuffer = [1, 2, 3]\<rparr>,
      \<lparr>mime_type = ''application/pdf'', arrayBuffer = [7, 8]\<rparr>]
     = Inr [1, 2, 3, 7, 8] \<and>
   (\<exists>out. mergePdfs example_load 0 pages
     [\<lparr>mime_type = ''application/pdf'', arrayBuffer = [1, 2, 3]\<rparr>,
      \<lparr>mime_type = ''application/pdf'', arrayBuffer = [7, 8]\<rparr>] = Inr out \<and> length out = 3 + 2)"
proof -
  let ?files = "[\<lparr>mime_type = ''application/pdf'', arrayBuffer = [1, 2, 3]\<rparr>,
                 \<lparr>mime_type = ''application/pdf'', arrayBuffer = [7, 8]\<rparr>]"
  let ?docs = "[\<lparr>pages = [1, 2, 3 :: nat]\<rparr>, \<lparr>pages = [7, 8]\<rparr>]"
  have l: "map (\<lambda>f. example_load (arrayBuffer f)) ?files = map Inr ?docs"
    by (simp add: example_load_def)
  have c: "\<forall>d :: nat document. length (pages d) = getPageCount d"
    by (simp add: getPageCount_def)
  have ne: "concat (map pages ?docs) = [1, 2, 3, 7, 8]" and s: "sum_list (map getPageCount ?docs) = 3 + 2"
    by (simp_all add: getPageCount_def)
  from mergePdfs_concatenates [where load = example_load and files = ?files and docs = ?docs
      and defaultPage = 0 and serialize = pages and pageCount = length, THEN conjunct1] l c
  have "mergePdfs example_load 0 pages ?files =
        Inr (pages \<lparr>pages = (if concat (map pages ?docs) = [] then [0]
                                else concat (map pages ?docs))\<rparr>)"
    and "\<exists>out. mergePdfs example_load 0 pages ?files = Inr out \<and>
                length out = (if concat (map pages ?docs) = [] then 1
                              else sum_list (map getPageCount ?docs))"
    by blast+
  then show ?thesis unfolding ne s by simp
qed

text \<open>
  C10, as stated, fails on what is returned: with no file the result is not the
  serialisation of the document without pages, but of a document with one page, the
  default page that saving adds.
\<close>

theorem mergePdfs_no_files_not_zero_pages:
  "mergePdfs example_load 0 pages [] = Inr (pages \<lparr>pages = [0]\<rparr>) \<and>
   mergePdfs example_load 0 pages [] \<noteq> Inr (pages (create :: nat document))"
  using example_merge_none by (simp add: create_def)

text \<open>
  C10, amended. mergePdfs applied to no file does not fail, whatever loading would do: it
  returns the serialisation of the document that has the default page and no other, a
  result with one page.
\<close>

theorem mergePdfs_no_files:
  "mergePdfs load defaultPage serialize [] = Inr (serialize \<lparr>pages = [defaultPage]\<rparr>) \<and>
   ((\<forall>d. pageCount (serialize d) = getPageCount d) \<longrightarrow>
      (\<exists>out. mergePdfs load defaultPage serialize [] = Inr out \<and> pageCount out = 1))"
  by (simp add: mergePdfs_none getPageCount_def)

theorem mergePdfs_no_files_witness:
  "mergePdfs example_load 7 pages [] = Inr [7] \<and>
   (\<exists>out. mergePdfs example_load 7 pages [] = Inr out \<and> length out = 1)"
proof -
  have c: "\<forall>d :: nat document. length (pages d) = getPageCount d"
    by (simp add: getPageCount_def)
  from mergePdfs_no_files [where load = example_load and defaultPage = 7 and serialize = pages
      and pageCount = length] c
  show ?thesis by simp
qed

section \<open>Properties of imagesToPdf\<close>

text \<open>The page that the loop body adds for an image at a size.\<close>

lemma add_image_page_pages:
  "pages (add_image_page d img sz) = pages d @
     [\<lparr>page_width = fst sz, page_height = snd sz,
       drawings = [\<lparr>drawn_image = img, at_x = 0, at_y = 0,
                     drawn_width = fst sz, drawn_height = snd sz\<rparr>]\<rparr>]"
  by (simp add: add_image_page_def addPage_sized_def drawImage_def nth_append)


lemma document_eq: "(d :: 'p document) = \<lparr>pages = pages d\<rparr>"
  by (cases d) simp





text \<open>The example environment, evaluated on images.\<close>

lemma example_serialize_blank: "example_serialize \<lparr>pages = [a4_page]\<rparr> = [2381, 3367]"
  by code_simp







section \<open>Properties of compressPdf\<close>

lemma canvas_resized:
  "cv\<lparr>canvas_width := w, canvas_height := h\<rparr> = \<lparr>canvas_width = w, canvas_height = h\<rparr>"
  by (cases cv) simp

lemma compress_loop_done:
  "numPages < i \<Longrightarrow>
     compress_loop r embedJpg pdf quality onProgress i numPages (d, cv, obs) = (obs, Inr d)"
  by (simp add: compress_loop.simps)

text \<open>One round of the loop, when none of its calls fails.\<close>

lemma compress_loop_round:
  assumes "i \<le> numPages"
    and "page_converts r embedJpg quality pdf i pg bm enc im"
  shows "compress_loop r embedJpg pdf quality onProgress i numPages (d, cv, obs) =
     compress_loop r embedJpg pdf quality onProgress (Suc i) numPages
       (add_image_page d im
          (viewport_width (getViewport r pg (3 / 2)), viewport_height (getViewport r pg (3 / 2))),
        page_canvas r pg,
        (case onProgress of None \<Rightarrow> obs | Some callback \<Rightarrow> callback i numPages obs)
          @ page_events r quality pg i)"
  using assms
  by (subst compress_loop.simps) (simp add: Let_def canvas_resized)

text \<open>
  One round of the loop, when one of its calls fails: fetching the page, painting it,
  encoding the canvas, or embedding the encoding.
\<close>

lemma compress_loop_getPage_fails:
  assumes "i \<le> numPages" and "getPage r pdf i = Inl e"
  shows "compress_loop r embedJpg pdf quality onProgress i numPages (d, cv, obs) =
     ((case onProgress of None \<Rightarrow> obs | Some callback \<Rightarrow> callback i numPages obs)
        @ [GetPage i], Inl e)"
  using assms
  by (subst compress_loop.simps) (simp add: Let_def)

lemma compress_loop_render_fails:
  assumes "i \<le> numPages" and "getPage r pdf i = Inr pg"
    and "render r pg (page_canvas r pg) (getViewport r pg (3 / 2)) = Inl e"
  shows "compress_loop r embedJpg pdf quality onProgress i numPages (d, cv, obs) =
     ((case onProgress of None \<Rightarrow> obs | Some callback \<Rightarrow> callback i numPages obs)
        @ take 3 (page_events r quality pg i), Inl e)"
  using assms
  by (subst compress_loop.simps) (simp add: Let_def canvas_resized)

lemma compress_loop_toDataURL_fails:
  assumes "i \<le> numPages" and "getPage r pdf i = Inr pg"
    and "render r pg (page_canvas r pg) (getViewport r pg (3 / 2)) = Inr bm"
    and "toDataURL r bm ''image/jpeg'' quality = Inl e"
  shows "compress_loop r embedJpg pdf quality onProgress i numPages (d, cv, obs) =
     ((case onProgress of None \<Rightarrow> obs | Some callback \<Rightarrow> callback i numPages obs)
        @ take 4 (page_events r quality pg i), Inl e)"
  using assms
  by (subst compress_loop.simps) (simp add: Let_def canvas_resized)

lemma compress_loop_embedJpg_fails:
  assumes "i \<le> numPages" and "getPage r pdf i = Inr pg"
    and "render r pg (page_canvas r pg) (getViewport r pg (3 / 2)) = Inr bm"
    and "toDataURL r bm ''image/jpeg'' quality = Inr enc"
    and "embedJpg enc = Inl e"
  shows "compress_loop r embedJpg pdf quality onProgress i numPages (d, cv, obs) =
     ((case onProgress of None \<Rightarrow> obs | Some callback \<Rightarrow> callback i numPages obs)
        @ take 5 (page_events r quality pg i), Inl e)"
  using assms
  by (subst compress_loop.simps) (simp add: Let_def canvas_resized)

text \<open>
  The loop from round \<open>i\<close> on, when no call of any round fails: what is observed, and the
  document in the end.
\<close>

lemma compress_loop_all:
  assumes "i \<le> Suc numPages"
    and "\<forall>j \<in> {i .. numPages}. page_converts r embedJpg quality pdf j (pg j) (bm j) (enc j) (img j)"
  shows "compress_loop r embedJpg pdf quality onProgress i numPages (d, cv, obs) =
     (fold (\<lambda>j observed.
              (case onProgress of None \<Rightarrow> observed
               | Some callback \<Rightarrow> callback j numPages observed)
                @ page_events r quality (pg j) j)
        [i ..< Suc numPages] obs,
      Inr \<lparr>pages = pages d @
             map (\<lambda>j. compressed_page r (pg j) (img j)) [i ..< Suc numPages]\<rparr>)"
  using assms
proof (induction "Suc numPages - i" arbitrary: i d cv obs)
  case 0
  then have "numPages < i" by simp
  then show ?case using document_eq [of d] by (simp add: compress_loop_done)
next
  case (Suc k)
  then have le: "i \<le> numPages" and k: "k = Suc numPages - Suc i"
    and le': "Suc i \<le> Suc numPages"
    by simp_all
  from Suc.prems(2) le
  have this_round: "page_converts r embedJpg quality pdf i (pg i) (bm i) (enc i) (img i)"
    by simp
  from Suc.prems(2)
  have rest: "\<forall>j \<in> {Suc i .. numPages}.
      page_converts r embedJpg quality pdf j (pg j) (bm j) (enc j) (img j)"
    by simp
  have up: "[i ..< Suc numPages] = i # [Suc i ..< Suc numPages]"
    using le by (simp add: upt_conv_Cons)
  note round = compress_loop_round [where i = i and numPages = numPages and embedJpg = embedJpg
      and r = r and quality = quality and pdf = pdf and pg = "pg i" and bm = "bm i"
      and enc = "enc i" and im = "img i", OF le this_round]
  show ?case
    unfolding round Suc.hyps(1) [OF k le' rest] up
    by (simp add: add_image_page_pages)
qed

lemma fold_record_progress:
  "fold (\<lambda>j observed. record_progress j n observed @ ev j) js obs
     = obs @ concat (map (\<lambda>j. Progress j n # ev j) js)"
  by (induction js arbitrary: obs) (simp_all add: record_progress_def)

lemma fold_no_callback:
  "fold (\<lambda>j observed. observed @ ev j) js obs = obs @ concat (map ev js)"
  by (induction js arbitrary: obs) simp_all

lemma filter_progress:
  "filter is_progress
     (concat (map (\<lambda>i. Progress i n # page_events r quality (g i) i) js))
     = map (\<lambda>i. Progress i n) js"
  by (induction js) simp_all

lemma compressPdf_loaded:
  assumes "getDocument r (arrayBuffer f) = Inr pdf" and "context_available r"
  shows "compressPdf r embedJpg serialize f quality onProgress =
     (case compress_loop r embedJpg pdf quality onProgress 1 (pdf_numPages r pdf)
             (create, createElement_canvas, []) of
        (observed, Inl e) \<Rightarrow> (observed, Inl e)
      | (observed, Inr d) \<Rightarrow> (observed, Inr (pdf_save a4_page serialize d)))"
  using assms by (simp add: compressPdf_def Let_def)

lemma compressPdf_result:
  assumes "getDocument r (arrayBuffer f) = Inr pdf" and "context_available r"
    and "\<forall>i \<in> {1 .. pdf_numPages r pdf}.
           page_converts r embedJpg quality pdf i (pg i) (bm i) (enc i) (img i)"
  shows "compressPdf r embedJpg serialize f quality onProgress =
    (fold (\<lambda>j observed.
             (case onProgress of None \<Rightarrow> observed
              | Some callback \<Rightarrow> callback j (pdf_numPages r pdf) observed)
               @ page_events r quality (pg j) j)
       [1 ..< Suc (pdf_numPages r pdf)] [],
     Inr (serialize \<lparr>pages =
       (if pdf_numPages r pdf = 0 then [a4_page]
        else map (\<lambda>i. compressed_page r (pg i) (img i)) [1 ..< Suc (pdf_numPages r pdf)])\<rparr>))"
proof -
  have "compress_loop r embedJpg pdf quality onProgress 1 (pdf_numPages r pdf)
             (create, createElement_canvas, []) =
     (fold (\<lambda>j observed.
              (case onProgress of None \<Rightarrow> observed
               | Some callback \<Rightarrow> callback j (pdf_numPages r pdf) observed)
                @ page_events r quality (pg j) j)
        [1 ..< Suc (pdf_numPages r pdf)] [],
      Inr \<lparr>pages = map (\<lambda>i. compressed_page r (pg i) (img i)) [1 ..< Suc (pdf_numPages r pdf)]\<rparr>)"
    using compress_loop_all [where i = 1 and numPages = "pdf_numPages r pdf" and pdf = pdf
        and embedJpg = embedJpg and r = r and quality = quality and pg = pg and bm = bm
        and enc = enc and img = img and onProgress = onProgress and d = create
        and cv = createElement_canvas and obs = "[]", OF _ assms(3)]
    by (simp add: create_def)
  then show ?thesis
    unfolding compressPdf_loaded [OF assms(1,2)]
    by (simp add: pdf_save_pages)
qed

text \<open>Assigning a number from 0 to below \<open>2 ^ 31\<close> to a dimension of the canvas cuts off its fraction.\<close>

lemma canvas_dimension_floor:
  assumes "0 \<le> x" and "x < 2 ^ 31"
  shows "canvas_dimension defaultValue x = nat \<lfloor>x\<rfloor>"
proof -
  have f0: "0 \<le> \<lfloor>x\<rfloor>" using assms(1) by simp
  have "\<lfloor>x\<rfloor> < 2 ^ 31" using assms(2) by (simp add: floor_less_iff)
  then have f1: "\<lfloor>x\<rfloor> \<le> 2147483647" by simp
  then have "\<lfloor>x\<rfloor> < 2 ^ 32" by simp
  with f0 have "\<lfloor>x\<rfloor> mod 2 ^ 32 = \<lfloor>x\<rfloor>" by simp
  with f0 f1 assms(1) show ?thesis
    by (simp add: canvas_dimension_def to_unsigned_long_def Let_def not_less nat_le_iff)
qed

text \<open>The example environment, evaluated.\<close>

lemma example_loaded:
  "getDocument example_renderer (arrayBuffer \<lparr>mime_type = m, arrayBuffer = b # bs\<rparr>) = Inr bs"
  "context_available example_renderer"
  by (simp_all add: example_renderer_def)

lemma example_numPages: "pdf_numPages example_renderer ps = length ps"
  by (simp add: example_renderer_def)

lemma example_getPage:
  "getPage example_renderer [1224] 1 = Inr (612, 1224)"
  "getPage example_renderer [1224, 1191] 1 = Inr (612, 1224)"
  "getPage example_renderer [1224, 1191] 2 = Inr (1191 / 2, 1191)"
  "getPage example_renderer [0, 1224] 1 = Inr (0, 0)"
  "getPage example_renderer [1191] 1 = Inr (1191 / 2, 1191)"
  "getPage example_renderer [255] 1 = Inr (255 / 2, 255)"
  by (simp_all add: example_renderer_def)

lemma example_viewport:
  "getViewport example_renderer (w, h) s = \<lparr>viewport_width = w * s, viewport_height = h * s\<rparr>"
  by (simp add: example_renderer_def)

lemma example_render:
  "h \<noteq> 255 \<Longrightarrow> render example_renderer (w, h) cv vp = Inr cv"
  "render example_renderer (w, 255) cv vp = Inl RenderingFailed"
  by (simp_all add: example_renderer_def)

lemma example_toDataURL:
  "toDataURL example_renderer \<lparr>canvas_width = cw, canvas_height = ch\<rparr> mime quality
     = Inr (if cw = 0 \<or> ch = 0 then [] else [cw, ch])"
  by (simp add: example_renderer_def)

lemma to_unsigned_long_examples:
  "to_unsigned_long (3573 / 4) = 893" "to_unsigned_long (3573 / 2) = 1786"
  "to_unsigned_long 918 = 918" "to_unsigned_long 1836 = 1836" "to_unsigned_long 0 = 0"
  "to_unsigned_long (765 / 4) = 191" "to_unsigned_long (765 / 2) = 382"
  by code_simp+

lemma canvas_dimension_examples:
  "canvas_dimension 300 (3573 / 4) = 893" "canvas_dimension 150 (3573 / 2) = 1786"
  "canvas_dimension 300 918 = 918" "canvas_dimension 150 1836 = 1836"
  "canvas_dimension 300 0 = 0" "canvas_dimension 150 0 = 0"
  "canvas_dimension 300 (765 / 4) = 191" "canvas_dimension 150 (765 / 2) = 382"
  by (simp_all add: canvas_dimension_def to_unsigned_long_examples)

lemma example_embedded:
  "example_embed [918, 1836] = Inr \<lparr>image_width = 918, image_height = 1836, image_data = [918, 1836]\<rparr>"
  "example_embed [893, 1786] = Inr \<lparr>image_width = 893, image_height = 1786, image_data = [893, 1786]\<rparr>"
  "example_embed [] = Inl UndecodableImage"
  by (simp_all add: example_embed_def)

text \<open>The three pages of the examples that convert, and the two that do not.\<close>

lemma example_converts_1224:
  "getPage example_renderer ps i = Inr (612, 1224) \<Longrightarrow>
     page_converts example_renderer example_embed quality ps i (612, 1224)
       \<lparr>canvas_width = 918, canvas_height = 1836\<rparr> [918, 1836]
       \<lparr>image_width = 918, image_height = 1836, image_data = [918, 1836]\<rparr>"
  by (simp add: example_viewport canvas_dimension_examples example_render example_toDataURL
      example_embedded)

lemma example_converts_1191:
  "getPage example_renderer ps i = Inr (1191 / 2, 1191) \<Longrightarrow>
     page_converts example_renderer example_embed quality ps i (1191 / 2, 1191)
       \<lparr>canvas_width = 893, canvas_height = 1786\<rparr> [893, 1786]
       \<lparr>image_width = 893, image_height = 1786, image_data = [893, 1786]\<rparr>"
  by (simp add: example_viewport canvas_dimension_examples example_render example_toDataURL
      example_embedded)

lemma example_serialized:
  "example_serialize \<lparr>pages = [\<lparr>page_width = 918, page_height = 1836,
       drawings = [\<lparr>drawn_image = \<lparr>image_width = 918, image_height = 1836, image_data = bs\<rparr>,
                     at_x = 0, at_y = 0, drawn_width = 918, drawn_height = 1836\<rparr>]\<rparr>]\<rparr>
     = [3672, 7344, 918, 1836]"
  "example_serialize \<lparr>pages = [\<lparr>page_width = 3573 / 4, page_height = 3573 / 2,
       drawings = [\<lparr>drawn_image = \<lparr>image_width = 893, image_height = 1786, image_data = bs'\<rparr>,
                     at_x = 0, at_y = 0, drawn_width = 3573 / 4, drawn_height = 3573 / 2\<rparr>]\<rparr>]\<rparr>
     = [3573, 7146, 893, 1786]"
  by (simp_all add: example_serialize_def)

lemma example_one_page:
  "compressPdf example_renderer example_embed example_serialize
      \<lparr>mime_type = ''application/pdf'', arrayBuffer = [37, 1224]\<rparr> (4 / 5) (Some record_progress)
     = ([Progress 1 1, GetPage 1, GetViewport 1 (3 / 2),
         Render 1 \<lparr>canvas_width = 918, canvas_height = 1836\<rparr>
           \<lparr>viewport_width = 918, viewport_height = 1836\<rparr>,
         Encode 1 ''image/jpeg'' (4 / 5), Embed 1, AddPage 1 918 1836, Cleanup 1],
        Inr [3672, 7344, 918, 1836])"
proof -
  have e: "\<forall>i \<in> {1 .. pdf_numPages example_renderer [1224]}.
      page_converts example_renderer example_embed (4 / 5) [1224] i
        (612, 1224) \<lparr>canvas_width = 918, canvas_height = 1836\<rparr> [918, 1836]
        \<lparr>image_width = 918, image_height = 1836, image_data = [918, 1836]\<rparr>"
    using example_converts_1224 [OF example_getPage(1), of "4 / 5"]
    by (simp add: example_numPages)
  show ?thesis
    unfolding compressPdf_result [where r = example_renderer and pdf = "[1224]"
        and f = "\<lparr>mime_type = ''application/pdf'', arrayBuffer = [37, 1224]\<rparr>"
        and embedJpg = example_embed and quality = "4 / 5" and pg = "\<lambda>i. (612 :: rat, 1224 :: rat)"
        and bm = "\<lambda>i. \<lparr>canvas_width = 918, canvas_height = 1836\<rparr>" and enc = "\<lambda>i. [918, 1836]"
        and img = "\<lambda>i. \<lparr>image_width = 918, image_height = 1836, image_data = [918, 1836]\<rparr>",
        OF example_loaded e]
    by (simp add: record_progress_def example_numPages example_viewport
        canvas_dimension_examples example_serialized)
qed

lemma example_no_area:
  "compressPdf example_renderer example_embed example_serialize
      \<lparr>mime_type = ''application/pdf'', arrayBuffer = [37, 0, 1224]\<rparr> (4 / 5)
      (Some record_progress)
     = ([Progress 1 2, GetPage 1, GetViewport 1 (3 / 2),
         Render 1 \<lparr>canvas_width = 0, canvas_height = 0\<rparr>
           \<lparr>viewport_width = 0, viewport_height = 0\<rparr>,
         Encode 1 ''image/jpeg'' (4 / 5), Embed 1],
        Inl UndecodableImage)"
proof -
  have l: "(1::nat) \<le> pdf_numPages example_renderer [0, 1224]"
    by (simp add: example_numPages)
  note g = example_getPage(4)
  have rn: "render example_renderer (0, 0) (page_canvas example_renderer (0, 0))
      (getViewport example_renderer (0, 0) (3 / 2)) = Inr \<lparr>canvas_width = 0, canvas_height = 0\<rparr>"
    by (simp add: example_viewport canvas_dimension_examples example_render)
  have en: "toDataURL example_renderer \<lparr>canvas_width = 0, canvas_height = 0\<rparr> ''image/jpeg'' (4 / 5)
      = Inr []"
    by (simp add: example_toDataURL)
  note aborts = compress_loop_embedJpg_fails [where r = example_renderer
      and embedJpg = example_embed and quality = "4 / 5", OF l g rn en example_embedded(3)]
  show ?thesis
    unfolding compressPdf_loaded [OF example_loaded] aborts
    by (simp add: record_progress_def example_numPages example_viewport canvas_dimension_examples)
qed

text \<open>
  C7, as stated, fails on the order of the call and the page: on a source of one page the
  callback is called with (1, 1) first, before the page is even fetched, and the page is
  processed after that. It also fails on the number of calls when a page cannot be
  converted: on a source of two pages whose first page has no area, the canvas has no
  pixel, \<^verbatim>\<open>embedJpg\<close> fails on the empty encoding, and the callback has been called once.
\<close>

theorem compressPdf_progress_precedes_page:
  "compressPdf example_renderer example_embed example_serialize
      \<lparr>mime_type = ''application/pdf'', arrayBuffer = [37, 1224]\<rparr> (4 / 5) (Some record_progress)
     = ([Progress 1 1, GetPage 1, GetViewport 1 (3 / 2),
         Render 1 \<lparr>canvas_width = 918, canvas_height = 1836\<rparr>
           \<lparr>viewport_width = 918, viewport_height = 1836\<rparr>,
         Encode 1 ''image/jpeg'' (4 / 5), Embed 1, AddPage 1 918 1836, Cleanup 1],
        Inr [3672, 7344, 918, 1836]) \<and>
   takeWhile (\<lambda>e. e \<noteq> GetPage 1)
     (fst (compressPdf example_renderer example_embed example_serialize
        \<lparr>mime_type = ''application/pdf'', arrayBuffer = [37, 1224]\<rparr> (4 / 5)
        (Some record_progress)))
     = [Progress 1 1] \<and>
   compressPdf example_renderer example_embed example_serialize
      \<lparr>mime_type = ''application/pdf'', arrayBuffer = [37, 0, 1224]\<rparr> (4 / 5)
      (Some record_progress)
     = ([Progress 1 2, GetPage 1, GetViewport 1 (3 / 2),
         Render 1 \<lparr>canvas_width = 0, canvas_height = 0\<rparr>
           \<lparr>viewport_width = 0, viewport_height = 0\<rparr>,
         Encode 1 ''image/jpeg'' (4 / 5), Embed 1],
        Inl UndecodableImage)"
  unfolding example_one_page example_no_area by simp

text \<open>
  C7, amended. Once the source of \<open>N\<close> pages has loaded, the canvas has a context and no
  call of any round fails (page \<open>i\<close> is fetched as \<open>pg i\<close>, painted, encoded and embedded),
  compressPdf with a callback calls it exactly \<open>N\<close> times, with (1, N), (2, N), ..., (N, N)
  in this order, and the call with (i, N) comes before page \<open>i\<close> is processed: what is
  observed is, for \<open>i\<close> from 1 to \<open>N\<close>, the call with (i, N) followed by the events of page
  \<open>i\<close>, from \<^verbatim>\<open>getPage(i)\<close> to \<^verbatim>\<open>cleanup()\<close>. This is so for the callback that notes its calls,
  and, as the last part says, for any other callback.
\<close>

theorem compressPdf_progress_sequence:
  assumes "getDocument r (arrayBuffer f) = Inr pdf" and "context_available r"
    and "\<forall>i \<in> {1 .. pdf_numPages r pdf}.
           page_converts r embedJpg quality pdf i (pg i) (bm i) (enc i) (img i)"
  shows "fst (compressPdf r embedJpg serialize f quality (Some record_progress)) =
           concat (map (\<lambda>i. Progress i (pdf_numPages r pdf) # page_events r quality (pg i) i)
                     [1 ..< Suc (pdf_numPages r pdf)]) \<and>
         filter is_progress
             (fst (compressPdf r embedJpg serialize f quality (Some record_progress))) =
           map (\<lambda>i. Progress i (pdf_numPages r pdf)) [1 ..< Suc (pdf_numPages r pdf)] \<and>
         fst (compressPdf r embedJpg serialize f quality (Some callback)) =
           fold (\<lambda>i observed. callback i (pdf_numPages r pdf) observed
                                @ page_events r quality (pg i) i)
             [1 ..< Suc (pdf_numPages r pdf)] []"
proof -
  have calls: "fst (compressPdf r embedJpg serialize f quality (Some callback)) =
      fold (\<lambda>i observed. callback i (pdf_numPages r pdf) observed
                           @ page_events r quality (pg i) i)
        [1 ..< Suc (pdf_numPages r pdf)] []"
    unfolding compressPdf_result [OF assms] by simp
  have "fst (compressPdf r embedJpg serialize f quality (Some record_progress)) =
      concat (map (\<lambda>i. Progress i (pdf_numPages r pdf) # page_events r quality (pg i) i)
                [1 ..< Suc (pdf_numPages r pdf)])"
    unfolding compressPdf_result [OF assms] by (simp add: fold_record_progress)
  with calls show ?thesis by (simp only: filter_progress simp_thms)
qed

theorem compressPdf_progress_sequence_witness:
  "fst (compressPdf example_renderer example_embed example_serialize
          \<lparr>mime_type = ''application/pdf'', arrayBuffer = [37, 1224, 1191]\<rparr> (4 / 5)
          (Some record_progress))
     = [Progress 1 2, GetPage 1, GetViewport 1 (3 / 2),
        Render 1 \<lparr>canvas_width = 918, canvas_height = 1836\<rparr>
          \<lparr>viewport_width = 918, viewport_height = 1836\<rparr>,
        Encode 1 ''image/jpeg'' (4 / 5), Embed 1, AddPage 1 918 1836, Cleanup 1,
        Progress 2 2, GetPage 2, GetViewport 2 (3 / 2),
        Render 2 \<lparr>canvas_width = 893, canvas_height = 1786\<rparr>
          \<lparr>viewport_width = 3573 / 4, viewport_height = 3573 / 2\<rparr>,
        Encode 2 ''image/jpeg'' (4 / 5), Embed 2, AddPage 2 (3573 / 4) (3573 / 2), Cleanup 2] \<and>
   filter is_progress
     (fst (compressPdf example_renderer example_embed example_serialize
          \<lparr>mime_type = ''application/pdf'', arrayBuffer = [37, 1224, 1191]\<rparr> (4 / 5)
          (Some record_progress)))
     = [Progress 1 2, Progress 2 2]"
proof -
  let ?pg = "\<lambda>i :: nat. if i = 1 then (612, 1224) else (1191 / 2, 1191 :: rat)"
  let ?bm = "\<lambda>i :: nat. if i = 1 then \<lparr>canvas_width = 918, canvas_height = 1836\<rparr>
                         else \<lparr>canvas_width = 893, canvas_height = 1786\<rparr>"
  let ?enc = "\<lambda>i :: nat. if i = 1 then [918, 1836] else [893, 1786 :: nat]"
  let ?img = "\<lambda>i :: nat. if i = 1
      then \<lparr>image_width = 918, image_height = 1836, image_data = [918, 1836]\<rparr>
      else \<lparr>image_width = 893, image_height = 1786, image_data = [893, 1786]\<rparr>"
  have s: "{1 .. pdf_numPages example_renderer [1224, 1191]} = {1, 2}"
    by (auto simp add: example_numPages)
  have e: "\<forall>i \<in> {1 .. pdf_numPages example_renderer [1224, 1191]}.
      page_converts example_renderer example_embed (4 / 5) [1224, 1191] i
        (?pg i) (?bm i) (?enc i) (?img i)"
    unfolding s
    using example_converts_1224 [OF example_getPage(2), of "4 / 5"]
      example_converts_1191 [OF example_getPage(3), of "4 / 5"]
    by simp
  have u: "[1 ..< Suc (pdf_numPages example_renderer [1224, 1191])] = [1, 2]"
    by (simp add: example_numPages upt_rec)
  note t = compressPdf_progress_sequence [where r = example_renderer and embedJpg = example_embed
      and f = "\<lparr>mime_type = ''application/pdf'', arrayBuffer = [37, 1224, 1191]\<rparr>"
      and pdf = "[1224, 1191]" and quality = "4 / 5" and pg = ?pg and bm = ?bm and enc = ?enc
      and img = ?img and serialize = example_serialize and callback = record_progress,
      OF example_loaded e]
  from t [THEN conjunct1] t [THEN conjunct2, THEN conjunct1]
  show ?thesis
    unfolding u
    by (simp add: example_numPages example_viewport canvas_dimension_examples)
qed

lemma example_fractional:
  "compressPdf example_renderer example_embed example_serialize
      \<lparr>mime_type = ''application/pdf'', arrayBuffer = [37, 1191]\<rparr> (4 / 5) None
     = ([GetPage 1, GetViewport 1 (3 / 2),
         Render 1 \<lparr>canvas_width = 893, canvas_height = 1786\<rparr>
           \<lparr>viewport_width = 3573 / 4, viewport_height = 3573 / 2\<rparr>,
         Encode 1 ''image/jpeg'' (4 / 5), Embed 1, AddPage 1 (3573 / 4) (3573 / 2), Cleanup 1],
        Inr [3573, 7146, 893, 1786])"
proof -
  have e: "\<forall>i \<in> {1 .. pdf_numPages example_renderer [1191]}.
      page_converts example_renderer example_embed (4 / 5) [1191] i
        (1191 / 2, 1191) \<lparr>canvas_width = 893, canvas_height = 1786\<rparr> [893, 1786]
        \<lparr>image_width = 893, image_height = 1786, image_data = [893, 1786]\<rparr>"
    using example_converts_1191 [OF example_getPage(5), of "4 / 5"]
    by (simp add: example_numPages)
  show ?thesis
    unfolding compressPdf_result [where r = example_renderer and pdf = "[1191]"
        and f = "\<lparr>mime_type = ''application/pdf'', arrayBuffer = [37, 1191]\<rparr>"
        and embedJpg = example_embed and quality = "4 / 5"
        and pg = "\<lambda>i. (1191 / 2 :: rat, 1191 :: rat)"
        and bm = "\<lambda>i. \<lparr>canvas_width = 893, canvas_height = 1786\<rparr>" and enc = "\<lambda>i. [893, 1786]"
        and img = "\<lambda>i. \<lparr>image_width = 893, image_height = 1786, image_data = [893, 1786]\<rparr>",
        OF example_loaded e]
    by (simp add: example_numPages example_viewport canvas_dimension_examples example_serialized)
qed

lemma example_no_page:
  "compressPdf example_renderer example_embed example_serialize
      \<lparr>mime_type = ''application/pdf'', arrayBuffer = [37]\<rparr> (4 / 5) None
     = ([], Inr [2381, 3367])"
proof -
  have e: "\<forall>i \<in> {1 .. pdf_numPages example_renderer []}.
      page_converts example_renderer example_embed (4 / 5) [] i
        (0, 0) \<lparr>canvas_width = 0, canvas_height = 0\<rparr> [] \<lparr>image_width = 0, image_height = 0, image_data = []\<rparr>"
    by (simp add: example_numPages)
  show ?thesis
    unfolding compressPdf_result [where r = example_renderer and pdf = "[]"
        and f = "\<lparr>mime_type = ''application/pdf'', arrayBuffer = [37]\<rparr>"
        and embedJpg = example_embed and quality = "4 / 5"
        and pg = "\<lambda>i. (0 :: rat, 0 :: rat)"
        and bm = "\<lambda>i. \<lparr>canvas_width = 0, canvas_height = 0\<rparr>" and enc = "\<lambda>i. []"
        and img = "\<lambda>i. \<lparr>image_width = 0, image_height = 0, image_data = []\<rparr>",
        OF example_loaded e]
    by (simp add: example_numPages example_serialize_blank)
qed

lemma example_not_rendered:
  "compressPdf example_renderer example_embed example_serialize
      \<lparr>mime_type = ''application/pdf'', arrayBuffer = [37, 255]\<rparr> (4 / 5) None
     = ([GetPage 1, GetViewport 1 (3 / 2),
         Render 1 \<lparr>canvas_width = 191, canvas_height = 382\<rparr>
           \<lparr>viewport_width = 765 / 4, viewport_height = 765 / 2\<rparr>],
        Inl RenderingFailed)"
proof -
  have l: "(1::nat) \<le> pdf_numPages example_renderer [255]"
    by (simp add: example_numPages)
  have rn: "render example_renderer (255 / 2, 255) (page_canvas example_renderer (255 / 2, 255))
      (getViewport example_renderer (255 / 2, 255) (3 / 2)) = Inl RenderingFailed"
    by (simp add: example_render)
  note aborts = compress_loop_render_fails [where r = example_renderer
      and embedJpg = example_embed and quality = "4 / 5", OF l example_getPage(6) rn]
  show ?thesis
    unfolding compressPdf_loaded [OF example_loaded] aborts
    by (simp add: example_numPages example_viewport canvas_dimension_examples)
qed

text \<open>
  C8, as stated, fails where the viewport is not a whole number of pixels: a source page of
  595.5 by 1191 points has the viewport 893.25 by 1786.5 at scale 1.5, which is the size of
  the new page (3573 by 7146 quarter points), while the raster, canvas and encoded image
  alike, is 893 by 1786 pixels. It fails on the number of pages for a source without pages,
  whose result has one blank page of 595.28 by 841.89 points (2381 by 3367 quarter points,
  rounded down); and a source whose only page cannot be rendered gives no document at all.
\<close>

theorem compressPdf_page_size_is_not_raster_size:
  "compressPdf example_renderer example_embed example_serialize
      \<lparr>mime_type = ''application/pdf'', arrayBuffer = [37, 1191]\<rparr> (4 / 5) None
     = ([GetPage 1, GetViewport 1 (3 / 2),
         Render 1 \<lparr>canvas_width = 893, canvas_height = 1786\<rparr>
           \<lparr>viewport_width = 3573 / 4, viewport_height = 3573 / 2\<rparr>,
         Encode 1 ''image/jpeg'' (4 / 5), Embed 1, AddPage 1 (3573 / 4) (3573 / 2), Cleanup 1],
        Inr [3573, 7146, 893, 1786]) \<and>
   compressPdf example_renderer example_embed example_serialize
      \<lparr>mime_type = ''application/pdf'', arrayBuffer = [37]\<rparr> (4 / 5) None
     = ([], Inr [2381, 3367]) \<and>
   example_serialize \<lparr>pages = [a4_page]\<rparr> = [2381, 3367] \<and>
   compressPdf example_renderer example_embed example_serialize
      \<lparr>mime_type = ''application/pdf'', arrayBuffer = [37, 255]\<rparr> (4 / 5) None
     = ([GetPage 1, GetViewport 1 (3 / 2),
         Render 1 \<lparr>canvas_width = 191, canvas_height = 382\<rparr>
           \<lparr>viewport_width = 765 / 4, viewport_height = 765 / 2\<rparr>],
        Inl RenderingFailed)"
  using example_fractional example_no_page example_serialize_blank example_not_rendered
  by blast

text \<open>
  C8, amended. Once the source of \<open>N\<close> pages has loaded, the canvas has a context and no
  call of any round fails (page \<open>i\<close> is fetched as \<open>pg i\<close>, painted, encoded and embedded as
  \<open>img i\<close>), compressPdf returns the serialisation of a document with one page for each page
  of the source, in order (so \<open>N\<close> pages), or, when the source has no page, with the one
  blank page that saving adds. For every page the viewport is taken at scale \<open>3 / 2\<close>, the
  page is rendered with it, the quality goes unchanged to the encoder (with the type
  \<^verbatim>\<open>image/jpeg\<close>), and the new page has the width and height of the viewport, the embedded
  image drawn on all of it. The raster is painted on the canvas, whose pixel dimensions are
  those of the viewport with the fractions cut off, as long as these are not negative and
  below \<open>2 ^ 31\<close>.
\<close>

theorem compressPdf_pages_sized_to_viewport:
  assumes "getDocument r (arrayBuffer f) = Inr pdf" and "context_available r"
    and "\<forall>i \<in> {1 .. pdf_numPages r pdf}.
           page_converts r embedJpg quality pdf i (pg i) (bm i) (enc i) (img i)"
  shows "snd (compressPdf r embedJpg serialize f quality onProgress) =
           Inr (serialize \<lparr>pages =
             (if pdf_numPages r pdf = 0 then [a4_page]
              else map (\<lambda>i. compressed_page r (pg i) (img i)) [1 ..< Suc (pdf_numPages r pdf)])\<rparr>) \<and>
         ((\<forall>d. pageCount (serialize d) = getPageCount d) \<longrightarrow>
            (\<exists>out. snd (compressPdf r embedJpg serialize f quality onProgress) = Inr out \<and>
                   pageCount out = (if pdf_numPages r pdf = 0 then 1 else pdf_numPages r pdf))) \<and>
         fst (compressPdf r embedJpg serialize f quality None) =
           concat (map (\<lambda>i. page_events r quality (pg i) i) [1 ..< Suc (pdf_numPages r pdf)]) \<and>
         (\<forall>i \<in> {1 .. pdf_numPages r pdf}.
            (0 \<le> viewport_width (getViewport r (pg i) (3 / 2)) \<and>
             viewport_width (getViewport r (pg i) (3 / 2)) < 2 ^ 31 \<longrightarrow>
               canvas_width (page_canvas r (pg i))
                 = nat \<lfloor>viewport_width (getViewport r (pg i) (3 / 2))\<rfloor>) \<and>
            (0 \<le> viewport_height (getViewport r (pg i) (3 / 2)) \<and>
             viewport_height (getViewport r (pg i) (3 / 2)) < 2 ^ 31 \<longrightarrow>
               canvas_height (page_canvas r (pg i))
                 = nat \<lfloor>viewport_height (getViewport r (pg i) (3 / 2))\<rfloor>))"
proof (intro conjI impI ballI)
  let ?ps = "if pdf_numPages r pdf = 0 then [a4_page]
      else map (\<lambda>i. compressed_page r (pg i) (img i)) [1 ..< Suc (pdf_numPages r pdf)]"
  show m: "snd (compressPdf r embedJpg serialize f quality onProgress) = Inr (serialize \<lparr>pages = ?ps\<rparr>)"
    unfolding compressPdf_result [OF assms] by simp
  show "fst (compressPdf r embedJpg serialize f quality None) =
      concat (map (\<lambda>i. page_events r quality (pg i) i) [1 ..< Suc (pdf_numPages r pdf)])"
    unfolding compressPdf_result [OF assms] by (simp add: fold_no_callback)
  assume c: "\<forall>d. pageCount (serialize d) = getPageCount d"
  have "pageCount (serialize \<lparr>pages = ?ps\<rparr>)
      = (if pdf_numPages r pdf = 0 then 1 else pdf_numPages r pdf)"
    by (simp add: c getPageCount_def)
  with m show "\<exists>out. snd (compressPdf r embedJpg serialize f quality onProgress) = Inr out \<and>
      pageCount out = (if pdf_numPages r pdf = 0 then 1 else pdf_numPages r pdf)"
    by simp
next
  fix i
  assume "0 \<le> viewport_width (getViewport r (pg i) (3 / 2)) \<and>
      viewport_width (getViewport r (pg i) (3 / 2)) < 2 ^ 31"
  then show "canvas_width (page_canvas r (pg i))
      = nat \<lfloor>viewport_width (getViewport r (pg i) (3 / 2))\<rfloor>"
    by (simp add: canvas_dimension_floor)
next
  fix i
  assume "0 \<le> viewport_height (getViewport r (pg i) (3 / 2)) \<and>
      viewport_height (getViewport r (pg i) (3 / 2)) < 2 ^ 31"
  then show "canvas_height (page_canvas r (pg i))
      = nat \<lfloor>viewport_height (getViewport r (pg i) (3 / 2))\<rfloor>"
    by (simp add: canvas_dimension_floor)
qed

theorem compressPdf_pages_sized_to_viewport_witness:
  "snd (compressPdf example_renderer example_embed example_serialize
          \<lparr>mime_type = ''application/pdf'', arrayBuffer = [37, 1224, 1191]\<rparr> (4 / 5) None)
     = Inr [3672, 7344, 918, 1836, 3573, 7146, 893, 1786] \<and>
   (\<exists>out. snd (compressPdf example_renderer example_embed (\<lambda>d. [length (pages d)])
          \<lparr>mime_type = ''application/pdf'', arrayBuffer = [37, 1224, 1191]\<rparr> (4 / 5) None)
       = Inr out \<and> hd out = 2) \<and>
   fst (compressPdf example_renderer example_embed example_serialize
          \<lparr>mime_type = ''application/pdf'', arrayBuffer = [37, 1224, 1191]\<rparr> (4 / 5) None)
     = [GetPage 1, GetViewport 1 (3 / 2),
        Render 1 \<lparr>canvas_width = 918, canvas_height = 1836\<rparr>
          \<lparr>viewport_width = 918, viewport_height = 1836\<rparr>,
        Encode 1 ''image/jpeg'' (4 / 5), Embed 1, AddPage 1 918 1836, Cleanup 1,
        GetPage 2, GetViewport 2 (3 / 2),
        Render 2 \<lparr>canvas_width = 893, canvas_height = 1786\<rparr>
          \<lparr>viewport_width = 3573 / 4, viewport_height = 3573 / 2\<rparr>,
        Encode 2 ''image/jpeg'' (4 / 5), Embed 2, AddPage 2 (3573 / 4) (3573 / 2), Cleanup 2] \<and>
   canvas_width (page_canvas example_renderer (1191 / 2, 1191)) = nat \<lfloor>3573 / 4 :: rat\<rfloor> \<and>
   canvas_height (page_canvas example_renderer (1191 / 2, 1191)) = nat \<lfloor>3573 / 2 :: rat\<rfloor>"
proof -
  let ?pg = "\<lambda>i :: nat. if i = 1 then (612, 1224) else (1191 / 2, 1191 :: rat)"
  let ?bm = "\<lambda>i :: nat. if i = 1 then \<lparr>canvas_width = 918, canvas_height = 1836\<rparr>
                         else \<lparr>canvas_width = 893, canvas_height = 1786\<rparr>"
  let ?enc = "\<lambda>i :: nat. if i = 1 then [918, 1836] else [893, 1786 :: nat]"
  let ?img = "\<lambda>i :: nat. if i = 1
      then \<lparr>image_width = 918, image_height = 1836, image_data = [918, 1836]\<rparr>
      else \<lparr>image_width = 893, image_height = 1786, image_data = [893, 1786]\<rparr>"
  let ?f = "\<lparr>mime_type = ''application/pdf'', arrayBuffer = [37, 1224, 1191]\<rparr>"
  have s: "{1 .. pdf_numPages example_renderer [1224, 1191]} = {1, 2}"
    by (auto simp add: example_numPages)
  have e: "\<forall>i \<in> {1 .. pdf_numPages example_renderer [1224, 1191]}.
      page_converts example_renderer example_embed (4 / 5) [1224, 1191] i
        (?pg i) (?bm i) (?enc i) (?img i)"
    unfolding s
    using example_converts_1224 [OF example_getPage(2), of "4 / 5"]
      example_converts_1191 [OF example_getPage(3), of "4 / 5"]
    by simp
  have u: "[1 ..< Suc (pdf_numPages example_renderer [1224, 1191])] = [1, 2]"
    by (simp add: example_numPages upt_rec)
  have two: "(2::nat) \<in> {1 .. pdf_numPages example_renderer [1224, 1191]}"
    unfolding s by simp
  have cnt: "\<forall>d :: page document. hd [length (pages d)] = getPageCount d"
    by (simp add: getPageCount_def)
  note t = compressPdf_pages_sized_to_viewport [where r = example_renderer
      and embedJpg = example_embed and f = ?f and pdf = "[1224, 1191]" and quality = "4 / 5"
      and pg = ?pg and bm = ?bm and enc = ?enc and img = ?img and onProgress = None,
      OF example_loaded e]
  have a: "snd (compressPdf example_renderer example_embed example_serialize ?f (4 / 5) None)
      = Inr [3672, 7344, 918, 1836, 3573, 7146, 893, 1786]"
    using t [where serialize = example_serialize, THEN conjunct1]
    unfolding u
    by (simp add: example_numPages example_viewport example_serialize_def)
  have b: "\<exists>out. snd (compressPdf example_renderer example_embed (\<lambda>d. [length (pages d)])
          ?f (4 / 5) None) = Inr out \<and> hd out = 2"
    using t [where serialize = "\<lambda>d. [length (pages d)]" and pageCount = hd,
        THEN conjunct2, THEN conjunct1, THEN mp, OF cnt]
    by (simp add: example_numPages numeral_2_eq_2)
  have c: "fst (compressPdf example_renderer example_embed example_serialize ?f (4 / 5) None)
     = [GetPage 1, GetViewport 1 (3 / 2),
        Render 1 \<lparr>canvas_width = 918, canvas_height = 1836\<rparr>
          \<lparr>viewport_width = 918, viewport_height = 1836\<rparr>,
        Encode 1 ''image/jpeg'' (4 / 5), Embed 1, AddPage 1 918 1836, Cleanup 1,
        GetPage 2, GetViewport 2 (3 / 2),
        Render 2 \<lparr>canvas_width = 893, canvas_height = 1786\<rparr>
          \<lparr>viewport_width = 3573 / 4, viewport_height = 3573 / 2\<rparr>,
        Encode 2 ''image/jpeg'' (4 / 5), Embed 2, AddPage 2 (3573 / 4) (3573 / 2), Cleanup 2]"
    using t [where serialize = example_serialize, THEN conjunct2, THEN conjunct2, THEN conjunct1]
    unfolding u
    by (simp add: example_viewport canvas_dimension_examples)
  have d: "canvas_width (page_canvas example_renderer (1191 / 2, 1191)) = nat \<lfloor>3573 / 4 :: rat\<rfloor> \<and>
      canvas_height (page_canvas example_renderer (1191 / 2, 1191)) = nat \<lfloor>3573 / 2 :: rat\<rfloor>"
    using t [where serialize = example_serialize, THEN conjunct2, THEN conjunct2, THEN conjunct2,
        THEN bspec, OF two]
    by (simp add: example_viewport)
  from a b c d show ?thesis by blast
qed

end
